theory Spec2Isabelle
  imports Complex_Main "HOL-Library.AList" "HOL-Library.Sublist"
begin

section \<open>Python values used by the notebooks\<close>

text \<open>
  The three notebooks under \<open>notebooks/03_clap_systems\<close> are modelled cell by cell.
  Floating-point numbers are modelled as real numbers, except that the arithmetic inside
  \<open>sklearn\<close>'s \<open>cosine_similarity\<close> is not modelled but taken as a parameter; tags are
  ASCII strings, and every exception a modelled line can raise is a value of type
  \<open>error\<close>.  A Python \<open>dict\<close>
  that is built by assignment and later iterated is an association list in insertion
  order; a \<open>dict\<close> or \<open>Counter\<close> that is only looked up is a partial map.
\<close>

datatype error = ZeroDivisionError | ValueError | IndexError

type_synonym vec = "real list"

type_synonym ('k, 'v) dict = "('k \<times> 'v) list"

text \<open>\<open>d[k] = v\<close>: an existing key keeps its position, a new key goes to the end.\<close>

definition dict_set :: "'k \<Rightarrow> 'v \<Rightarrow> ('k, 'v) dict \<Rightarrow> ('k, 'v) dict" where
  "dict_set k v d = AList.update k v d"

text \<open>\<open>d.get(k, default)\<close>.\<close>

definition dict_get :: "('k, 'v) dict \<Rightarrow> 'k \<Rightarrow> 'v \<Rightarrow> 'v" where
  "dict_get d k dflt = (case map_of d k of None \<Rightarrow> dflt | Some v \<Rightarrow> v)"

text \<open>Float division \<open>a / b\<close>, which raises on a zero divisor.\<close>

definition py_div :: "real \<Rightarrow> real \<Rightarrow> error + real" where
  "py_div a b = (if b = 0 then Inl ZeroDivisionError else Inr (a / b))"

text \<open>The built-in \<open>min\<close> and \<open>max\<close> of a list; each raises on an empty list.\<close>

definition py_min :: "real list \<Rightarrow> error + real" where
  "py_min xs = (case xs of [] \<Rightarrow> Inl ValueError | x # rest \<Rightarrow> Inr (fold min rest x))"

definition py_max :: "real list \<Rightarrow> error + real" where
  "py_max xs = (case xs of [] \<Rightarrow> Inl ValueError | x # rest \<Rightarrow> Inr (fold max rest x))"

text \<open>\<open>str.lower\<close>, \<open>str.strip\<close> and \<open>str.split(',')\<close> on ASCII strings.\<close>

definition lower_char :: "char \<Rightarrow> char" where
  "lower_char c =
     (if 65 \<le> (of_char c :: nat) \<and> (of_char c :: nat) \<le> 90
      then char_of ((of_char c :: nat) + 32) else c)"

definition lower :: "string \<Rightarrow> string" where
  "lower s = map lower_char s"

definition is_space :: "char \<Rightarrow> bool" where
  "is_space c = ((of_char c :: nat) \<in> {9, 10, 11, 12, 13, 28, 29, 30, 31, 32})"

definition strip :: "string \<Rightarrow> string" where
  "strip s = rev (dropWhile is_space (rev (dropWhile is_space s)))"

fun split_on :: "char \<Rightarrow> string \<Rightarrow> string list" where
  "split_on sep [] = [[]]"
| "split_on sep (c # cs) =
     (if c = sep then [] # split_on sep cs
      else (case split_on sep cs of
              [] \<Rightarrow> [[c]]
            | w # ws \<Rightarrow> (c # w) # ws))"

section \<open>Document frequency (notebooks \<open>03_clap_baseline_df\<close> and \<open>03_clap_baseline_df_sbert\<close>)\<close>

text \<open>
  The reference corpus is the \<open>tags\<close> column of \<open>metadata_df\<close>, one comma-separated
  string per document.  \<open>tag_document_counts\<close> is a \<open>Counter\<close>: a key is present exactly
  when it has been incremented, and a missing key reads as 0.
\<close>

type_synonym counter = "string \<rightharpoonup> nat"

definition counter_get :: "counter \<Rightarrow> string \<Rightarrow> nat" where
  "counter_get c k = (case c k of None \<Rightarrow> 0 | Some n \<Rightarrow> n)"

definition counter_incr :: "string \<Rightarrow> counter \<Rightarrow> counter" where
  "counter_incr k c = c(k \<mapsto> counter_get c k + 1)"

definition row_tags :: "string \<Rightarrow> string list" where
  "row_tags s = map (\<lambda>tag. lower (strip tag)) (split_on (CHR '','') s)"

text \<open>
  One iteration of the document loop.  \<open>unique_tags = set(tags)\<close> is iterated in an
  order Python does not fix; each tag is visited once and the increments commute, so the
  order of \<open>remdups\<close> is used.
\<close>

definition count_document :: "string \<Rightarrow> counter \<Rightarrow> counter" where
  "count_document row c = fold counter_incr (remdups (row_tags row)) c"

definition tag_document_counts :: "string list \<Rightarrow> counter" where
  "tag_document_counts metadata = fold count_document metadata Map.empty"

definition total_documents :: "string list \<Rightarrow> nat" where
  "total_documents metadata = length metadata"

text \<open>
  The loop that fills \<open>tag_df_scores\<close>, with its two counters.  \<open>math.log(1 + n)\<close> is
  defined for every count \<open>n\<close>; the division raises when \<open>math.log(1 + total_documents)\<close>
  is zero.
\<close>

record df_mapping =
  tag_df_scores :: "(string, real) dict"
  matched_tags :: nat
  unmatched_tags :: nat

fun df_mapping_loop ::
  "string list \<Rightarrow> counter \<Rightarrow> nat \<Rightarrow> real \<Rightarrow> df_mapping \<Rightarrow> error + df_mapping" where
  "df_mapping_loop [] counts n alpha st = Inr st"
| "df_mapping_loop (tag # tags) counts n alpha st =
     (let tag_lower = lower tag in
      if tag_lower \<in> dom counts then
        (let df_count = counter_get counts tag_lower in
         case py_div (ln (1 + real df_count)) (ln (1 + real n)) of
           Inl e \<Rightarrow> Inl e
         | Inr normalized_df \<Rightarrow>
             (let df_score = (1 - alpha) + alpha * normalized_df in
              df_mapping_loop tags counts n alpha
                (st\<lparr>tag_df_scores := dict_set tag df_score (tag_df_scores st),
                    matched_tags := matched_tags st + 1\<rparr>)))
      else
        (let default_df_score = 1 - alpha in
         df_mapping_loop tags counts n alpha
           (st\<lparr>tag_df_scores := dict_set tag default_df_score (tag_df_scores st),
               unmatched_tags := unmatched_tags st + 1\<rparr>)))"

text \<open>
  The whole cell: the loop, then the statistics it prints of the stored weights.
  \<open>min(df_scores_values)\<close> and \<open>max(df_scores_values)\<close> raise when the table is empty;
  \<open>np.mean\<close> and \<open>np.std\<close> return \<open>nan\<close> there and do not raise, and the sorting and
  slicing that follow in \<open>03_clap_baseline_df\<close> raise nothing.
\<close>

definition create_df_mapping ::
  "string list \<Rightarrow> counter \<Rightarrow> nat \<Rightarrow> real \<Rightarrow> error + df_mapping" where
  "create_df_mapping clap_tags counts n alpha =
     (case df_mapping_loop clap_tags counts n alpha
             \<lparr>tag_df_scores = [], matched_tags = 0, unmatched_tags = 0\<rparr> of
        Inl e \<Rightarrow> Inl e
      | Inr st \<Rightarrow>
          (let df_scores_values = map snd (tag_df_scores st) in
           case py_min df_scores_values of
             Inl e \<Rightarrow> Inl e
           | Inr lowest \<Rightarrow>
               (case py_max df_scores_values of
                  Inl e \<Rightarrow> Inl e
                | Inr highest \<Rightarrow> Inr st)))"

text \<open>The two cells run one after the other on the same \<open>metadata_df\<close>.\<close>

definition compute_df_scores :: "string list \<Rightarrow> string list \<Rightarrow> real \<Rightarrow> error + df_mapping" where
  "compute_df_scores metadata clap_tags alpha =
     create_df_mapping clap_tags (tag_document_counts metadata) (total_documents metadata) alpha"

section \<open>Cosine similarity and maximum (\<open>sklearn\<close>, \<open>numpy\<close>)\<close>

text \<open>
  \<open>sklearn.metrics.pairwise.cosine_similarity(X, Y)\<close> returns the matrix of the cosine
  similarities of the rows of \<open>X\<close> with the rows of \<open>Y\<close>.  It raises \<open>ValueError\<close> when
  an argument has no row or no column, or when the rows of \<open>X\<close> and \<open>Y\<close> differ in
  length.  The number it computes for one pair of rows is the result of floating-point
  arithmetic inside the library; it is the parameter \<open>cosine\<close> of the model, and of every
  function that calls the library, so that what is proved for every \<open>cosine\<close> holds for
  the numbers the library returns.

  \<open>exact_cosine\<close> is that number in exact arithmetic: every row is divided by its norm,
  a row of norm zero is left as it is, and the dot product is taken.  It is used where a
  concrete input is evaluated, on vectors for which the floating-point computation is
  exact.
\<close>

definition dot :: "vec \<Rightarrow> vec \<Rightarrow> real" where
  "dot x y = sum_list (map2 (*) x y)"

definition row_norm :: "vec \<Rightarrow> real" where
  "row_norm x = sqrt (dot x x)"

definition normalize_row :: "vec \<Rightarrow> vec" where
  "normalize_row x = (let n = row_norm x in map (\<lambda>a. a / (if n = 0 then 1 else n)) x)"

definition exact_cosine :: "vec \<Rightarrow> vec \<Rightarrow> real" where
  "exact_cosine x y = dot (normalize_row x) (normalize_row y)"

definition shapes_agree :: "vec list \<Rightarrow> vec list \<Rightarrow> bool" where
  "shapes_agree X Y =
     (X \<noteq> [] \<and> Y \<noteq> [] \<and> list_all (\<lambda>x. x \<noteq> [] \<and> list_all (\<lambda>y. length y = length x) Y) X)"

definition cosine_similarity ::
  "(vec \<Rightarrow> vec \<Rightarrow> real) \<Rightarrow>
   vec list \<Rightarrow> vec list \<Rightarrow> error + real list list" where
  "cosine_similarity cosine X Y =
     (if shapes_agree X Y
      then Inr (map (\<lambda>x. map (\<lambda>y. cosine x y) Y) X)
      else Inl ValueError)"

text \<open>\<open>np.max\<close> of a one-dimensional array; it raises on an empty array.\<close>

definition np_max :: "real list \<Rightarrow> error + real" where
  "np_max xs = (case xs of [] \<Rightarrow> Inl ValueError | x # rest \<Rightarrow> Inr (fold max rest x))"

text \<open>\<open>xs[0]\<close>.\<close>

definition first :: "'a list \<Rightarrow> error + 'a" where
  "first xs = (case xs of [] \<Rightarrow> Inl IndexError | x # _ \<Rightarrow> Inr x)"

text \<open>
  \<open>sorted(items, key=key, reverse=True)\<close>: descending by key, and stable, so that items
  with equal keys keep the order they had in \<open>items\<close>.
\<close>

definition sorted_reverse :: "('a \<Rightarrow> real) \<Rightarrow> 'a list \<Rightarrow> 'a list" where
  "sorted_reverse key items = sort_key (\<lambda>x. - key x) items"

text \<open>The slice \<open>xs[:k]\<close>; a negative \<open>k\<close> counts from the end.\<close>

definition slice_to :: "int \<Rightarrow> 'a list \<Rightarrow> 'a list" where
  "slice_to k xs = (if 0 \<le> k then take (nat k) xs else take (length xs - nat (- k)) xs)"

section \<open>Loading the tag embeddings\<close>

text \<open>
  \<open>tag_embeddings_array\<close> has one entry per tag, each a list of sentence-variant
  vectors.  The cell compares its length with the tag list, prints a warning and
  truncates both on a mismatch, fills the \<open>tag_embeddings\<close> dictionary, and finally
  prints the shape of the first dictionary value, which raises on an empty dictionary.
  Of the lines the cell prints, only the warning is recorded.
\<close>

datatype printed = Mismatch_warning nat nat

record loaded_tags =
  printed_lines :: "printed list"
  num_tags :: nat
  tag_names_list :: "string list"
  tag_embeddings_array :: "vec list list"
  tag_embeddings :: "(string, vec list) dict"

fun fill_tag_embeddings ::
  "(string \<times> vec list) list \<Rightarrow> (string, vec list) dict \<Rightarrow> (string, vec list) dict" where
  "fill_tag_embeddings [] d = d"
| "fill_tag_embeddings ((tag, embeds) # rest) d = fill_tag_embeddings rest (dict_set tag embeds d)"

definition load_tag_embeddings :: "string list \<Rightarrow> vec list list \<Rightarrow> error + loaded_tags" where
  "load_tag_embeddings clap_tags array =
     (let (out, n, names, arr) =
            (if length clap_tags \<noteq> length array
             then (let n = min (length clap_tags) (length array)
                   in ([Mismatch_warning (length clap_tags) (length array)],
                       n, take n clap_tags, take n array))
             else ([], length clap_tags, clap_tags, array));
          d = fill_tag_embeddings (zip names arr) []
      in case first (map snd d) of
           Inl e \<Rightarrow> Inl e
         | Inr _ \<Rightarrow> Inr \<lparr>printed_lines = out, num_tags = n, tag_names_list = names,
                         tag_embeddings_array = arr, tag_embeddings = d\<rparr>)"

section \<open>Recommendations\<close>

text \<open>\<open>get_tag_recommendations\<close> of notebook \<open>03_clap_baseline\<close>.\<close>

fun tag_similarities_loop ::
  "(vec \<Rightarrow> vec \<Rightarrow> real) \<Rightarrow>
   vec \<Rightarrow> (string, vec list) dict \<Rightarrow> (string, real) dict \<Rightarrow> error + (string, real) dict" where
  "tag_similarities_loop cosine audio_embedding [] tag_similarities = Inr tag_similarities"
| "tag_similarities_loop cosine audio_embedding ((tag, text_embeds) # rest) tag_similarities =
     (case cosine_similarity cosine [audio_embedding] text_embeds of
        Inl e \<Rightarrow> Inl e
      | Inr m \<Rightarrow>
          (case first m of
             Inl e \<Rightarrow> Inl e
           | Inr similarities \<Rightarrow>
               (case np_max similarities of
                  Inl e \<Rightarrow> Inl e
                | Inr s \<Rightarrow>
                    tag_similarities_loop cosine audio_embedding rest (dict_set tag s tag_similarities))))"

definition get_tag_recommendations ::
  "(vec \<Rightarrow> vec \<Rightarrow> real) \<Rightarrow>
   vec \<Rightarrow> (string, vec list) dict \<Rightarrow> int \<Rightarrow> error + (string list \<times> real list)" where
  "get_tag_recommendations cosine audio_embedding tag_embeds top_k =
     (case tag_similarities_loop cosine audio_embedding tag_embeds [] of
        Inl e \<Rightarrow> Inl e
      | Inr tag_similarities \<Rightarrow>
          (let sorted_tags = sorted_reverse snd tag_similarities;
               top_tags = map fst (slice_to top_k sorted_tags);
               top_scores = map snd (slice_to top_k sorted_tags)
           in Inr (top_tags, top_scores)))"

text \<open>\<open>get_tag_recommendations_df_weighted\<close> of the two DF notebooks.\<close>

record similarity_entry =
  base_similarity :: real
  df_weight :: real
  weighted_similarity :: real

fun weighted_similarities_loop ::
  "(vec \<Rightarrow> vec \<Rightarrow> real) \<Rightarrow>
   vec \<Rightarrow> (string, vec list) dict \<Rightarrow> (string, real) dict \<Rightarrow> (string, similarity_entry) dict \<Rightarrow>
   error + (string, similarity_entry) dict" where
  "weighted_similarities_loop cosine audio_embedding [] df_scores tag_similarities =
     Inr tag_similarities"
| "weighted_similarities_loop cosine audio_embedding ((tag, text_embeds) # rest) df_scores
     tag_similarities =
     (case cosine_similarity cosine [audio_embedding] text_embeds of
        Inl e \<Rightarrow> Inl e
      | Inr m \<Rightarrow>
          (case first m of
             Inl e \<Rightarrow> Inl e
           | Inr similarities \<Rightarrow>
               (case np_max similarities of
                  Inl e \<Rightarrow> Inl e
                | Inr base \<Rightarrow>
                    (let w = dict_get df_scores tag 1;
                         weighted = base * w
                     in weighted_similarities_loop cosine audio_embedding rest df_scores
                          (dict_set tag
                             \<lparr>base_similarity = base, df_weight = w,
                              weighted_similarity = weighted\<rparr>
                             tag_similarities)))))"

definition get_tag_recommendations_df_weighted ::
  "(vec \<Rightarrow> vec \<Rightarrow> real) \<Rightarrow>
   vec \<Rightarrow> (string, vec list) dict \<Rightarrow> (string, real) dict \<Rightarrow> int \<Rightarrow>
   error + (string list \<times> real list \<times> real list \<times> real list)" where
  "get_tag_recommendations_df_weighted cosine audio_embedding tag_embeds df_scores top_k =
     (case weighted_similarities_loop cosine audio_embedding tag_embeds df_scores [] of
        Inl e \<Rightarrow> Inl e
      | Inr tag_similarities \<Rightarrow>
          (let sorted_tags = sorted_reverse (\<lambda>x. weighted_similarity (snd x)) tag_similarities;
               top_tags = map fst (slice_to top_k sorted_tags);
               top_scores = map (\<lambda>x. weighted_similarity (snd x)) (slice_to top_k sorted_tags);
               top_base_scores = map (\<lambda>x. base_similarity (snd x)) (slice_to top_k sorted_tags);
               top_df_weights = map (\<lambda>x. df_weight (snd x)) (slice_to top_k sorted_tags)
           in Inr (top_tags, top_scores, top_base_scores, top_df_weights)))"

section \<open>Hits and per-clip metrics\<close>

text \<open>
  \<open>list(set(a) & set(b))\<close>: every common element once.  Python does not fix the order of
  the resulting list; the order of first occurrence in \<open>a\<close> is used here.
\<close>

definition intersection_list :: "string list \<Rightarrow> string list \<Rightarrow> string list" where
  "intersection_list a b = filter (\<lambda>t. t \<in> set b) (remdups a)"

text \<open>
  The three metric lines shared by all evaluation loops.  The divisor of the precision
  is the literal \<open>10.0\<close>, the \<open>top_k\<close> every loop passes to its recommender.
\<close>

definition clip_metrics :: "'a list \<Rightarrow> 'b list \<Rightarrow> error + (real \<times> real \<times> real)" where
  "clip_metrics hit_list ground_truth =
     (let precision = real (length hit_list) / 10 in
      case (if ground_truth \<noteq> []
            then py_div (real (length hit_list)) (real (length ground_truth))
            else Inr 0) of
        Inl e \<Rightarrow> Inl e
      | Inr recall_value \<Rightarrow>
          (case (if precision + recall_value > 0
                 then py_div (2 * (precision * recall_value)) (precision + recall_value)
                 else Inr 0) of
             Inl e \<Rightarrow> Inl e
           | Inr f1 \<Rightarrow> Inr (precision, recall_value, f1)))"

text \<open>
  The body of the evaluation loop of \<open>03_clap_baseline\<close> and \<open>03_clap_baseline_df\<close>,
  after the recommender has returned \<open>predicted_tags\<close>.  The result record keeps the
  fields computed here; \<open>sound_id\<close>, \<open>title\<close> and the recommender's score lists, which
  are copied unchanged, are left out.
\<close>

record clip_result =
  ground_truth_tags :: "string list"
  predicted_tags :: "string list"
  hits :: "string list"
  num_hits :: nat
  precision_at_10 :: real
  recall :: real
  f1_score :: real

definition evaluate_exact :: "string list \<Rightarrow> string list \<Rightarrow> error + clip_result" where
  "evaluate_exact predicted_list pair_ground_truth_tags =
     (let gt = map lower pair_ground_truth_tags;
          predicted_tags_lower = map lower predicted_list;
          hs = intersection_list predicted_tags_lower gt
      in case clip_metrics hs gt of
           Inl e \<Rightarrow> Inl e
         | Inr (p, r, f) \<Rightarrow>
             Inr \<lparr>ground_truth_tags = gt, predicted_tags = predicted_list, hits = hs,
                  num_hits = length hs, precision_at_10 = p, recall = r, f1_score = f\<rparr>)"

definition baseline_clip ::
  "(vec \<Rightarrow> vec \<Rightarrow> real) \<Rightarrow>
   vec \<Rightarrow> (string, vec list) dict \<Rightarrow> string list \<Rightarrow> error + clip_result" where
  "baseline_clip cosine audio_embedding tag_embeds pair_ground_truth_tags =
     (case get_tag_recommendations cosine audio_embedding tag_embeds 10 of
        Inl e \<Rightarrow> Inl e
      | Inr (top_tags, top_scores) \<Rightarrow> evaluate_exact top_tags pair_ground_truth_tags)"

definition df_clip ::
  "(vec \<Rightarrow> vec \<Rightarrow> real) \<Rightarrow>
   vec \<Rightarrow> (string, vec list) dict \<Rightarrow> (string, real) dict \<Rightarrow> string list \<Rightarrow>
   error + clip_result" where
  "df_clip cosine audio_embedding tag_embeds df_scores pair_ground_truth_tags =
     (case get_tag_recommendations_df_weighted cosine audio_embedding tag_embeds df_scores 10 of
        Inl e \<Rightarrow> Inl e
      | Inr (top_tags, top_scores, top_base_scores, top_df_weights) \<Rightarrow>
          evaluate_exact top_tags pair_ground_truth_tags)"

section \<open>Semantic hits (notebook \<open>03_clap_baseline_df_sbert\<close>)\<close>

record semantic_match =
  predicted :: string
  matched_gt :: "string option"
  similarity :: real

text \<open>The inner loop over the ground-truth tags, for one predicted tag.\<close>

fun best_match_loop ::
  "(vec \<Rightarrow> vec \<Rightarrow> real) \<Rightarrow>
   vec \<Rightarrow> (string \<rightharpoonup> vec) \<Rightarrow> string list \<Rightarrow> real \<times> string option \<Rightarrow>
   error + (real \<times> string option)" where
  "best_match_loop cosine pred_embedding tag_to_sbert [] (max_similarity, best_match) =
     Inr (max_similarity, best_match)"
| "best_match_loop cosine pred_embedding tag_to_sbert (gt_tag # rest) (max_similarity, best_match) =
     (case tag_to_sbert gt_tag of
        None \<Rightarrow> best_match_loop cosine pred_embedding tag_to_sbert rest (max_similarity, best_match)
      | Some gt_embedding \<Rightarrow>
          (case cosine_similarity cosine [pred_embedding] [gt_embedding] of
             Inl e \<Rightarrow> Inl e
           | Inr m \<Rightarrow>
               (case first m of
                  Inl e \<Rightarrow> Inl e
                | Inr row \<Rightarrow>
                    (case first row of
                       Inl e \<Rightarrow> Inl e
                     | Inr sim \<Rightarrow>
                         if sim > max_similarity
                         then best_match_loop cosine pred_embedding tag_to_sbert rest
                                (sim, Some gt_tag)
                         else best_match_loop cosine pred_embedding tag_to_sbert rest
                                (max_similarity, best_match)))))"

text \<open>The outer loop over the predicted tags; the two result lists grow by \<open>append\<close>.\<close>

fun semantic_hits_loop ::
  "(vec \<Rightarrow> vec \<Rightarrow> real) \<Rightarrow>
   string list \<Rightarrow> string list \<Rightarrow> (string \<rightharpoonup> vec) \<Rightarrow> real \<Rightarrow>
   string list \<times> semantic_match list \<Rightarrow> error + (string list \<times> semantic_match list)" where
  "semantic_hits_loop cosine [] gts tag_to_sbert threshold (hs, ms) = Inr (hs, ms)"
| "semantic_hits_loop cosine (pred_tag # rest) gts tag_to_sbert threshold (hs, ms) =
     (case tag_to_sbert pred_tag of
        None \<Rightarrow> semantic_hits_loop cosine rest gts tag_to_sbert threshold (hs, ms)
      | Some pred_embedding \<Rightarrow>
          (case best_match_loop cosine pred_embedding tag_to_sbert gts (0, None) of
             Inl e \<Rightarrow> Inl e
           | Inr (max_similarity, best_match) \<Rightarrow>
               if max_similarity \<ge> threshold
               then semantic_hits_loop cosine rest gts tag_to_sbert threshold
                      (hs @ [pred_tag],
                       ms @ [\<lparr>predicted = pred_tag, matched_gt = best_match,
                               similarity = max_similarity\<rparr>])
               else semantic_hits_loop cosine rest gts tag_to_sbert threshold (hs, ms)))"

definition compute_semantic_hits ::
  "(vec \<Rightarrow> vec \<Rightarrow> real) \<Rightarrow>
   string list \<Rightarrow> string list \<Rightarrow> (string \<rightharpoonup> vec) \<Rightarrow> real \<Rightarrow>
   error + (string list \<times> semantic_match list)" where
  "compute_semantic_hits cosine predicted_list ground_truth tag_to_sbert similarity_threshold =
     semantic_hits_loop cosine (map lower predicted_list) (map lower ground_truth) tag_to_sbert
       similarity_threshold ([], [])"

text \<open>
  The body of the evaluation loop of \<open>03_clap_baseline_df_sbert\<close>, after the recommender
  has returned \<open>predicted_tags\<close>.  Precision, recall and F1 are computed from the
  semantic hits; the exact hits are recorded beside them.
\<close>

record sbert_clip_result =
  sbert_ground_truth_tags :: "string list"
  sbert_predicted_tags :: "string list"
  semantic_hits :: "string list"
  semantic_matches :: "semantic_match list"
  exact_hits :: "string list"
  num_semantic_hits :: nat
  num_exact_hits :: nat
  sbert_precision_at_10 :: real
  sbert_recall :: real
  sbert_f1_score :: real

definition evaluate_sbert ::
  "(vec \<Rightarrow> vec \<Rightarrow> real) \<Rightarrow>
   string list \<Rightarrow> string list \<Rightarrow> (string \<rightharpoonup> vec) \<Rightarrow> real \<Rightarrow> error + sbert_clip_result" where
  "evaluate_sbert cosine predicted_list pair_ground_truth_tags tag_to_sbert similarity_threshold =
     (let gt = map lower pair_ground_truth_tags in
      case compute_semantic_hits cosine predicted_list gt tag_to_sbert similarity_threshold of
        Inl e \<Rightarrow> Inl e
      | Inr (sem_hits, sem_matches) \<Rightarrow>
          (let predicted_tags_lower = map lower predicted_list;
               ex_hits = intersection_list predicted_tags_lower gt
           in case clip_metrics sem_hits gt of
                Inl e \<Rightarrow> Inl e
              | Inr (p, r, f) \<Rightarrow>
                  Inr \<lparr>sbert_ground_truth_tags = gt, sbert_predicted_tags = predicted_list,
                       semantic_hits = sem_hits, semantic_matches = sem_matches,
                       exact_hits = ex_hits, num_semantic_hits = length sem_hits,
                       num_exact_hits = length ex_hits, sbert_precision_at_10 = p,
                       sbert_recall = r, sbert_f1_score = f\<rparr>))"

definition sbert_clip ::
  "(vec \<Rightarrow> vec \<Rightarrow> real) \<Rightarrow>
   vec \<Rightarrow> (string, vec list) dict \<Rightarrow> (string, real) dict \<Rightarrow> string list \<Rightarrow>
   (string \<rightharpoonup> vec) \<Rightarrow> real \<Rightarrow> error + sbert_clip_result" where
  "sbert_clip cosine audio_embedding tag_embeds df_scores pair_ground_truth_tags tag_to_sbert
     similarity_threshold =
     (case get_tag_recommendations_df_weighted cosine audio_embedding tag_embeds df_scores 10 of
        Inl e \<Rightarrow> Inl e
      | Inr (top_tags, top_scores, top_base_scores, top_df_weights) \<Rightarrow>
          evaluate_sbert cosine top_tags pair_ground_truth_tags tag_to_sbert similarity_threshold)"

section \<open>Well-formed inputs\<close>

text \<open>
  The shape the data model gives the recommender's inputs: the audio embedding has at
  least one component, and every tag has at least one sentence variant, each of the audio
  embedding's dimension.
\<close>

definition embeddings_match :: "vec \<Rightarrow> (string, vec list) dict \<Rightarrow> bool" where
  "embeddings_match audio_embedding tag_embeds =
     (audio_embedding \<noteq> [] \<and>
      list_all (\<lambda>entry. snd entry \<noteq> [] \<and>
                  list_all (\<lambda>e. length e = length audio_embedding) (snd entry)) tag_embeds)"

section \<open>Properties of the document-frequency weights\<close>

lemma lower_char_idem: "lower_char (lower_char c) = lower_char c"
  unfolding lower_char_def by auto

lemma lower_idem: "lower (lower s) = lower s"
  by (simp add: lower_def lower_char_idem)

lemma counter_get_incr:
  "counter_get (counter_incr k c) t = (if t = k then counter_get c k + 1 else counter_get c t)"
  by (simp add: counter_get_def counter_incr_def)

lemma fold_incr_distinct:
  "distinct ts \<Longrightarrow>
   counter_get (fold counter_incr ts c) t = counter_get c t + (if t \<in> set ts then 1 else 0)"
  by (induction ts arbitrary: c) (auto simp: counter_get_incr)

lemma count_document_le: "counter_get (count_document row c) t \<le> counter_get c t + 1"
  by (simp add: count_document_def fold_incr_distinct)

lemma fold_count_document_le:
  "counter_get (fold count_document rows c) t \<le> counter_get c t + length rows"
proof (induction rows arbitrary: c)
  case Nil
  show ?case by simp
next
  case (Cons r rows)
  have "counter_get (fold count_document rows (count_document r c)) t
          \<le> counter_get (count_document r c) t + length rows"
    by (rule Cons.IH)
  also have "\<dots> \<le> counter_get c t + 1 + length rows"
    using count_document_le[of r c t] by simp
  finally show ?case by simp
qed

text \<open>A tag is counted at most once per document, so no count exceeds the number of documents.\<close>

lemma document_frequency_le_total:
  "counter_get (tag_document_counts metadata) t \<le> total_documents metadata"
  using fold_count_document_le[of metadata Map.empty t]
  by (simp add: tag_document_counts_def total_documents_def counter_get_def)

lemma tag_document_counts_Nil: "tag_document_counts [] = Map.empty"
  by (simp add: tag_document_counts_def)

lemma map_of_dict_set: "map_of (dict_set k v d) = (map_of d)(k \<mapsto> v)"
  by (simp add: dict_set_def update_conv')

lemma df_loop_matched:
  assumes "0 < n"
  shows "\<exists>st'. df_mapping_loop tags counts n alpha st = Inr st' \<and>
      (\<forall>t. map_of (tag_df_scores st') t =
         (if t \<in> set tags
          then Some ((1 - alpha) +
                 alpha * (ln (1 + real (counter_get counts (lower t))) / ln (1 + real n)))
          else map_of (tag_df_scores st) t))"
proof (induction tags arbitrary: st)
  case Nil
  show ?case by simp
next
  case (Cons tag tags)
  have nz: "ln (1 + real n) \<noteq> 0" using assms by simp
  show ?case
  proof (cases "lower tag \<in> dom counts")
    case True
    let ?st = "st\<lparr>tag_df_scores := dict_set tag ((1 - alpha) +
                 alpha * (ln (1 + real (counter_get counts (lower tag))) / ln (1 + real n)))
                 (tag_df_scores st),
               matched_tags := matched_tags st + 1\<rparr>"
    from Cons.IH[of ?st] obtain st' where
      "df_mapping_loop tags counts n alpha ?st = Inr st'" and
      "\<forall>t. map_of (tag_df_scores st') t =
         (if t \<in> set tags
          then Some ((1 - alpha) +
                 alpha * (ln (1 + real (counter_get counts (lower t))) / ln (1 + real n)))
          else map_of (tag_df_scores ?st) t)"
      by blast
    with True nz show ?thesis by (auto simp: Let_def py_div_def map_of_dict_set)
  next
    case False
    then have z: "counter_get counts (lower tag) = 0"
      by (auto simp: counter_get_def dom_def)
    let ?st = "st\<lparr>tag_df_scores := dict_set tag (1 - alpha) (tag_df_scores st),
               unmatched_tags := unmatched_tags st + 1\<rparr>"
    from Cons.IH[of ?st] obtain st' where
      "df_mapping_loop tags counts n alpha ?st = Inr st'" and
      "\<forall>t. map_of (tag_df_scores st') t =
         (if t \<in> set tags
          then Some ((1 - alpha) +
                 alpha * (ln (1 + real (counter_get counts (lower t))) / ln (1 + real n)))
          else map_of (tag_df_scores ?st) t)"
      by blast
    with False z show ?thesis by (auto simp: Let_def map_of_dict_set)
  qed
qed

lemma df_loop_unmatched:
  assumes "\<forall>t \<in> set tags. lower t \<notin> dom counts"
  shows "\<exists>st'. df_mapping_loop tags counts n alpha st = Inr st' \<and>
      matched_tags st' = matched_tags st \<and>
      unmatched_tags st' = unmatched_tags st + length tags \<and>
      (\<forall>t. map_of (tag_df_scores st') t =
         (if t \<in> set tags then Some (1 - alpha) else map_of (tag_df_scores st) t))"
  using assms
proof (induction tags arbitrary: st)
  case Nil
  show ?case by simp
next
  case (Cons tag tags)
  let ?st = "st\<lparr>tag_df_scores := dict_set tag (1 - alpha) (tag_df_scores st),
             unmatched_tags := unmatched_tags st + 1\<rparr>"
  from Cons.prems have "\<forall>t \<in> set tags. lower t \<notin> dom counts" by simp
  from Cons.IH[OF this, of ?st] obtain st' where
    "df_mapping_loop tags counts n alpha ?st = Inr st'" and
    "matched_tags st' = matched_tags ?st" and
    "unmatched_tags st' = unmatched_tags ?st + length tags" and
    "\<forall>t. map_of (tag_df_scores st') t =
       (if t \<in> set tags then Some (1 - alpha) else map_of (tag_df_scores ?st) t)"
    by blast
  with Cons.prems show ?case by (auto simp: Let_def map_of_dict_set)
qed

lemma normalized_df_range:
  assumes "df \<le> n" and "0 < n"
  shows "0 \<le> ln (1 + real df) / ln (1 + real n)"
    and "ln (1 + real df) / ln (1 + real n) \<le> 1"
proof -
  have p: "0 < ln (1 + real n)" using assms(2) by simp
  have a: "0 \<le> ln (1 + real df)" by simp
  have b: "ln (1 + real df) \<le> ln (1 + real n)" using assms(1) by simp
  from a p show "0 \<le> ln (1 + real df) / ln (1 + real n)" by simp
  from b p show "ln (1 + real df) / ln (1 + real n) \<le> 1" by simp
qed

lemma interpolate_range:
  assumes "0 \<le> alpha" "alpha \<le> 1" "0 \<le> r" "r \<le> (1::real)"
  shows "1 - alpha \<le> (1 - alpha) + alpha * r" and "(1 - alpha) + alpha * r \<le> 1"
proof -
  from assms show "1 - alpha \<le> (1 - alpha) + alpha * r" by simp
  have "alpha * r \<le> alpha * 1" using assms by (intro mult_left_mono) auto
  then show "(1 - alpha) + alpha * r \<le> 1" by simp
qed

text \<open>The statistics lines raise nothing once the table holds a weight.\<close>

lemma create_df_mapping_returns:
  assumes "df_mapping_loop clap_tags counts n alpha
             \<lparr>tag_df_scores = [], matched_tags = 0, unmatched_tags = 0\<rparr> = Inr st"
    and "map_of (tag_df_scores st) tag = Some w"
  shows "create_df_mapping clap_tags counts n alpha = Inr st"
proof -
  from assms(2) obtain entry rest where "tag_df_scores st = entry # rest"
    by (cases "tag_df_scores st") auto
  with assms(1) show ?thesis
    by (simp add: create_df_mapping_def py_min_def py_max_def)
qed

text \<open>
  C1.  For a document-frequency table with \<open>n \<ge> 1\<close> documents, the weight stored for a
  tag of the vocabulary is \<open>(1 - alpha) + alpha * (log(1 + df) / log(1 + n))\<close>, where
  \<open>df\<close> is the count of the lower-cased tag in the table (0 when the tag is absent); the
  cell raises nothing, and a tag with \<open>df = 0\<close> gets exactly \<open>1 - alpha\<close>.  This holds
  for every \<open>alpha\<close>, in particular for those in \<open>[0, 1]\<close>.
\<close>

theorem df_weight_formula:
  assumes "1 \<le> n" and "tag \<in> set clap_tags"
  shows "\<exists>st. create_df_mapping clap_tags counts n alpha = Inr st \<and>
     map_of (tag_df_scores st) tag =
       Some ((1 - alpha) +
          alpha * (ln (1 + real (counter_get counts (lower tag))) / ln (1 + real n))) \<and>
     (counter_get counts (lower tag) = 0 \<longrightarrow>
        map_of (tag_df_scores st) tag = Some (1 - alpha))"
proof -
  from assms(1) have "0 < n" by simp
  from df_loop_matched[OF this, of clap_tags counts alpha
      "\<lparr>tag_df_scores = [], matched_tags = 0, unmatched_tags = 0\<rparr>"]
  obtain st where loop: "df_mapping_loop clap_tags counts n alpha
        \<lparr>tag_df_scores = [], matched_tags = 0, unmatched_tags = 0\<rparr> = Inr st"
    and m: "\<forall>t. map_of (tag_df_scores st) t =
         (if t \<in> set clap_tags
          then Some ((1 - alpha) +
                 alpha * (ln (1 + real (counter_get counts (lower t))) / ln (1 + real n)))
          else map_of (tag_df_scores
                 \<lparr>tag_df_scores = [], matched_tags = 0, unmatched_tags = 0\<rparr>) t)"
    by blast
  from m assms(2) have w: "map_of (tag_df_scores st) tag =
       Some ((1 - alpha) +
          alpha * (ln (1 + real (counter_get counts (lower tag))) / ln (1 + real n)))"
    by simp
  from create_df_mapping_returns[OF loop w]
  have st: "create_df_mapping clap_tags counts n alpha = Inr st" .
  with w show ?thesis by auto
qed

theorem df_weight_formula_witness:
  "\<exists>st. create_df_mapping [''a'', ''b'', ''zz''] [''a'' \<mapsto> 3, ''b'' \<mapsto> 1, ''c'' \<mapsto> 1] 3 (7/10)
           = Inr st \<and>
        map_of (tag_df_scores st) ''a'' = Some 1 \<and>
        map_of (tag_df_scores st) ''zz'' = Some (3/10)"
proof -
  have h: "(1::nat) \<le> 3" by simp
  have a: "''a'' \<in> set [''a'', ''b'', ''zz'']" by simp
  have z: "''zz'' \<in> set [''a'', ''b'', ''zz'']" by simp
  from df_weight_formula[OF h a, of "[''a'' \<mapsto> 3, ''b'' \<mapsto> 1, ''c'' \<mapsto> 1]" "7/10"]
       df_weight_formula[OF h z, of "[''a'' \<mapsto> 3, ''b'' \<mapsto> 1, ''c'' \<mapsto> 1]" "7/10"]
  show ?thesis
    by (auto simp: counter_get_def lower_def lower_char_def)
qed

text \<open>
  C9.  For every \<open>alpha\<close> in \<open>[0, 1]\<close>, every corpus and every tag of the vocabulary, the
  two cells run without raising and the weight they store for the tag lies in
  \<open>[1 - alpha, 1]\<close>.
\<close>

theorem df_weight_range:
  assumes "0 \<le> alpha" and "alpha \<le> 1" and "tag \<in> set clap_tags"
  shows "\<exists>st w. compute_df_scores metadata clap_tags alpha = Inr st \<and>
           map_of (tag_df_scores st) tag = Some w \<and> 1 - alpha \<le> w \<and> w \<le> 1"
proof (cases "metadata = []")
  case True
  have "\<forall>t \<in> set clap_tags. lower t \<notin> dom (Map.empty :: counter)" by simp
  from df_loop_unmatched[OF this, of 0 alpha
      "\<lparr>tag_df_scores = [], matched_tags = 0, unmatched_tags = 0\<rparr>"]
  obtain st where loop: "df_mapping_loop clap_tags Map.empty 0 alpha
        \<lparr>tag_df_scores = [], matched_tags = 0, unmatched_tags = 0\<rparr> = Inr st"
    and m: "\<forall>t. map_of (tag_df_scores st) t =
           (if t \<in> set clap_tags then Some (1 - alpha)
            else map_of (tag_df_scores
                   \<lparr>tag_df_scores = [], matched_tags = 0, unmatched_tags = 0\<rparr>) t)"
    by blast
  from m assms(3) have w: "map_of (tag_df_scores st) tag = Some (1 - alpha)" by simp
  from create_df_mapping_returns[OF loop w] True
  have "compute_df_scores metadata clap_tags alpha = Inr st"
    by (simp add: compute_df_scores_def tag_document_counts_Nil total_documents_def)
  with w assms show ?thesis by auto
next
  case False
  let ?n = "total_documents metadata"
  let ?c = "tag_document_counts metadata"
  let ?r = "ln (1 + real (counter_get ?c (lower tag))) / ln (1 + real ?n)"
  from False have n: "0 < ?n" by (simp add: total_documents_def)
  from df_loop_matched[OF n, of clap_tags ?c alpha
      "\<lparr>tag_df_scores = [], matched_tags = 0, unmatched_tags = 0\<rparr>"]
  obtain st where loop: "df_mapping_loop clap_tags ?c ?n alpha
        \<lparr>tag_df_scores = [], matched_tags = 0, unmatched_tags = 0\<rparr> = Inr st"
    and m: "\<forall>t. map_of (tag_df_scores st) t =
         (if t \<in> set clap_tags
          then Some ((1 - alpha) +
                 alpha * (ln (1 + real (counter_get ?c (lower t))) / ln (1 + real ?n)))
          else map_of (tag_df_scores
                 \<lparr>tag_df_scores = [], matched_tags = 0, unmatched_tags = 0\<rparr>) t)"
    by blast
  from m assms(3) have w: "map_of (tag_df_scores st) tag = Some ((1 - alpha) + alpha * ?r)"
    by simp
  from create_df_mapping_returns[OF loop w]
  have st: "compute_df_scores metadata clap_tags alpha = Inr st"
    by (simp add: compute_df_scores_def)
  have "0 \<le> ?r" "?r \<le> 1"
    using normalized_df_range[OF document_frequency_le_total[of metadata "lower tag"] n]
    by auto
  from interpolate_range[OF assms(1,2) this] w st show ?thesis by blast
qed

theorem df_weight_range_witness:
  "\<exists>st w. compute_df_scores [''rain, wind'', ''Rain''] [''rain'', ''snow''] (7/10) = Inr st \<and>
           map_of (tag_df_scores st) ''rain'' = Some w \<and> 1 - 7/10 \<le> w \<and> w \<le> 1"
proof -
  have a: "(0::real) \<le> 7/10" and b: "(7/10::real) \<le> 1" by simp_all
  have t: "''rain'' \<in> set [''rain'', ''snow'']" by simp
  from df_weight_range[OF a b t, of "[''rain, wind'', ''Rain'']"] show ?thesis by simp
qed

text \<open>
  C5, as stated, fails: on a corpus of zero documents the two cells raise nothing and
  return a weight table.
\<close>

theorem empty_corpus_counterexample:
  "compute_df_scores [] [''rain''] (7/10) =
     Inr \<lparr>tag_df_scores = [(''rain'', 3/10)], matched_tags = 0, unmatched_tags = 1\<rparr>"
  by (simp add: compute_df_scores_def create_df_mapping_def tag_document_counts_def
      total_documents_def dict_set_def lower_def lower_char_def py_min_def py_max_def)

text \<open>
  C5, amended.  When the corpus has zero documents and the vocabulary is not empty, the
  count table is empty, no tag of the vocabulary is matched, no division is evaluated,
  and the cell raises nothing and returns a table that gives every tag of the vocabulary
  the weight \<open>1 - alpha\<close>.
\<close>

theorem empty_corpus_weights:
  assumes "total_documents metadata = 0" and "clap_tags \<noteq> []"
  shows "\<exists>st. compute_df_scores metadata clap_tags alpha = Inr st \<and>
           matched_tags st = 0 \<and> unmatched_tags st = length clap_tags \<and>
           (\<forall>tag \<in> set clap_tags. map_of (tag_df_scores st) tag = Some (1 - alpha))"
proof -
  from assms(1) have e: "metadata = []" by (simp add: total_documents_def)
  have "\<forall>t \<in> set clap_tags. lower t \<notin> dom (Map.empty :: counter)" by simp
  from df_loop_unmatched[OF this, of 0 alpha
      "\<lparr>tag_df_scores = [], matched_tags = 0, unmatched_tags = 0\<rparr>"]
  obtain st where loop: "df_mapping_loop clap_tags Map.empty 0 alpha
        \<lparr>tag_df_scores = [], matched_tags = 0, unmatched_tags = 0\<rparr> = Inr st"
    and c: "matched_tags st = 0" "unmatched_tags st = length clap_tags"
    and m: "\<forall>t. map_of (tag_df_scores st) t =
           (if t \<in> set clap_tags then Some (1 - alpha)
            else map_of (tag_df_scores
                   \<lparr>tag_df_scores = [], matched_tags = 0, unmatched_tags = 0\<rparr>) t)"
    by auto
  from assms(2) obtain tag where "tag \<in> set clap_tags" by (cases clap_tags) auto
  with m have w: "map_of (tag_df_scores st) tag = Some (1 - alpha)" by simp
  from create_df_mapping_returns[OF loop w] e
  have "compute_df_scores metadata clap_tags alpha = Inr st"
    by (simp add: compute_df_scores_def tag_document_counts_Nil total_documents_def)
  with c m show ?thesis by auto
qed

theorem empty_corpus_weights_witness:
  "\<exists>st. compute_df_scores [] [''rain'', ''snow''] (7/10) = Inr st \<and>
           matched_tags st = 0 \<and> unmatched_tags st = 2 \<and>
           map_of (tag_df_scores st) ''rain'' = Some (3/10) \<and>
           map_of (tag_df_scores st) ''snow'' = Some (3/10)"
proof -
  have h: "total_documents [] = 0" by (simp add: total_documents_def)
  have v: "[''rain'', ''snow''] \<noteq> []" by simp
  from empty_corpus_weights[OF h v, of "7/10"] show ?thesis by auto
qed

section \<open>Properties of the per-clip metrics\<close>

lemma clip_metrics_value:
  "clip_metrics hs gt =
     Inr (real (length hs) / 10,
          (if gt \<noteq> [] then real (length hs) / real (length gt) else 0),
          (if real (length hs) / 10 + (if gt \<noteq> [] then real (length hs) / real (length gt) else 0) > 0
           then 2 * (real (length hs) / 10 * (if gt \<noteq> [] then real (length hs) / real (length gt) else 0)) /
                (real (length hs) / 10 + (if gt \<noteq> [] then real (length hs) / real (length gt) else 0))
           else 0))"
proof -
  define p where "p = real (length hs) / 10"
  define r where "r = (if gt \<noteq> [] then real (length hs) / real (length gt) else 0)"
  define f where "f = (if p + r > 0 then 2 * (p * r) / (p + r) else 0)"
  have r: "(if gt \<noteq> [] then py_div (real (length hs)) (real (length gt)) else Inr 0) = Inr r"
    by (simp add: py_div_def r_def)
  have f: "(if p + r > 0 then py_div (2 * (p * r)) (p + r) else Inr 0) = Inr f"
    by (simp add: py_div_def f_def)
  have "clip_metrics hs gt = Inr (p, r, f)"
    by (simp only: clip_metrics_def Let_def p_def[symmetric] r sum.case f)
  then show ?thesis by (simp only: f_def r_def p_def)
qed

text \<open>
  C3.  For every list of hits and every list of ground-truth tags the three metric lines
  raise nothing; the precision is the number of hits divided by 10, the cutoff \<open>K\<close> the
  loops use; the recall is the number of hits divided by the number of ground-truth tags,
  and exactly 0 when there are none; F1 is \<open>2PR/(P+R)\<close> when \<open>P + R > 0\<close> and exactly 0
  when \<open>P + R = 0\<close>.
\<close>

theorem clip_metrics_formulas:
  "\<exists>p r f. clip_metrics hs gt = Inr (p, r, f) \<and>
     p = real (length hs) / 10 \<and>
     (gt \<noteq> [] \<longrightarrow> r = real (length hs) / real (length gt)) \<and>
     (gt = [] \<longrightarrow> r = 0) \<and>
     (p + r > 0 \<longrightarrow> f = 2 * p * r / (p + r)) \<and>
     (p + r = 0 \<longrightarrow> f = 0)"
proof -
  define p where "p = real (length hs) / 10"
  define r where "r = (if gt \<noteq> [] then real (length hs) / real (length gt) else 0)"
  define f where "f = (if p + r > 0 then 2 * (p * r) / (p + r) else 0)"
  have "clip_metrics hs gt = Inr (p, r, f)"
    unfolding f_def r_def p_def by (rule clip_metrics_value)
  moreover have "gt \<noteq> [] \<longrightarrow> r = real (length hs) / real (length gt)" "gt = [] \<longrightarrow> r = 0"
    by (simp_all add: r_def)
  moreover have "p + r = 0 \<longrightarrow> f = 0" "p + r > 0 \<longrightarrow> f = 2 * p * r / (p + r)"
    by (simp_all add: f_def)
  ultimately show ?thesis using p_def by blast
qed

text \<open>The hand-computed case: 3 hits, 6 ground-truth tags; and the empty case.\<close>

theorem clip_metrics_formulas_witness:
  "clip_metrics [''a'', ''b'', ''c''] [''a'', ''b'', ''c'', ''d'', ''e'', ''f''] = Inr (3/10, 1/2, 3/8) \<and>
   clip_metrics ([] :: string list) ([] :: string list) = Inr (0, 0, 0)"
proof -
  obtain p r f where m: "clip_metrics [''a'', ''b'', ''c''] [''a'', ''b'', ''c'', ''d'', ''e'', ''f''] = Inr (p, r, f)"
    and p: "p = real (length [''a'', ''b'', ''c'']) / 10"
    and r: "[''a'', ''b'', ''c'', ''d'', ''e'', ''f''] \<noteq> [] \<longrightarrow>
            r = real (length [''a'', ''b'', ''c'']) / real (length [''a'', ''b'', ''c'', ''d'', ''e'', ''f''])"
    and f: "p + r > 0 \<longrightarrow> f = 2 * p * r / (p + r)"
    using clip_metrics_formulas[of "[''a'', ''b'', ''c'']" "[''a'', ''b'', ''c'', ''d'', ''e'', ''f'']"]
    by blast
  from p have p': "p = 3/10" by simp
  from r have r': "r = 1/2" by simp
  from f p' r' have "f = 3/8" by simp
  with m p' r' have a: "clip_metrics [''a'', ''b'', ''c''] [''a'', ''b'', ''c'', ''d'', ''e'', ''f''] = Inr (3/10, 1/2, 3/8)"
    by simp
  from clip_metrics_formulas[of "[] :: string list" "[] :: string list"]
  have b: "clip_metrics ([] :: string list) ([] :: string list) = Inr (0, 0, 0)"
    by auto
  from a b show ?thesis by simp
qed


section \<open>Properties of loading the tag embeddings\<close>

lemma fill_keys: "fst ` set (fill_tag_embeddings xs d) = fst ` set xs \<union> fst ` set d"
  by (induction xs d rule: fill_tag_embeddings.induct) (auto simp: dict_set_def dom_update)

text \<open>
  C7, as stated, fails: with two tags and one embedding the cell prints a warning, keeps
  the first tag and returns normally.
\<close>

theorem length_mismatch_counterexample:
  "load_tag_embeddings [''rain'', ''wind''] [[[1, 0]]] =
     Inr \<lparr>printed_lines = [Mismatch_warning 2 1], num_tags = 1, tag_names_list = [''rain''],
          tag_embeddings_array = [[[1, 0]]], tag_embeddings = [(''rain'', [[1, 0]])]\<rparr>"
  by (simp add: load_tag_embeddings_def dict_set_def first_def)

text \<open>
  C7, amended.  A length mismatch between a non-empty tag list and a non-empty embedding
  array is not fatal: the cell prints one warning with the two lengths, truncates both to
  the smaller length, builds the tag-embedding mapping over the truncated tag list, and
  returns normally.
\<close>

theorem length_mismatch_truncates:
  assumes "length clap_tags \<noteq> length array" and "clap_tags \<noteq> []" and "array \<noteq> []"
  shows "\<exists>r. load_tag_embeddings clap_tags array = Inr r \<and>
           printed_lines r = [Mismatch_warning (length clap_tags) (length array)] \<and>
           num_tags r = min (length clap_tags) (length array) \<and>
           tag_names_list r = take (num_tags r) clap_tags \<and>
           tag_embeddings_array r = take (num_tags r) array \<and>
           fst ` set (tag_embeddings r) = set (tag_names_list r)"
proof -
  let ?n = "min (length clap_tags) (length array)"
  let ?d = "fill_tag_embeddings (zip (take ?n clap_tags) (take ?n array)) []"
  have l1: "0 < length clap_tags" and l2: "0 < length array" using assms(2,3) by simp_all
  then have n: "0 < ?n" by simp
  have "map fst (zip (take ?n clap_tags) (take ?n array)) = take ?n clap_tags"
    by (simp add: map_fst_zip)
  then have "set (map fst (zip (take ?n clap_tags) (take ?n array))) = set (take ?n clap_tags)"
    by (rule arg_cong)
  then have "fst ` set (zip (take ?n clap_tags) (take ?n array)) = set (take ?n clap_tags)"
    by (simp only: set_map)
  then have keys: "fst ` set ?d = set (take ?n clap_tags)"
    by (simp add: fill_keys)
  have "length (take ?n clap_tags) = ?n" by simp
  with n have "take ?n clap_tags \<noteq> []" by (metis length_0_conv less_numeral_extra(3))
  then have "set (take ?n clap_tags) \<noteq> {}" by simp
  with keys have "?d \<noteq> []" by (metis image_empty empty_set)
  then obtain x xs where d: "?d = x # xs" by (cases ?d) auto
  show ?thesis
    unfolding load_tag_embeddings_def using assms(1) keys
    by (simp add: Let_def first_def d)
qed

theorem length_mismatch_truncates_witness:
  "\<exists>r. load_tag_embeddings [''rain'', ''wind'', ''sea''] [[[1, 0]], [[0, 1]]] = Inr r \<and>
        printed_lines r = [Mismatch_warning 3 2] \<and> num_tags r = 2 \<and>
        tag_names_list r = [''rain'', ''wind''] \<and>
        tag_embeddings_array r = [[[1, 0]], [[0, 1]]]"
proof -
  have a: "length [''rain'', ''wind'', ''sea''] \<noteq> length [[[1, 0 :: real]], [[0, 1]]]" by simp
  have b: "[''rain'', ''wind'', ''sea''] \<noteq> []" by simp
  have c: "[[[1, 0 :: real]], [[0, 1]]] \<noteq> []" by simp
  from length_mismatch_truncates[OF a b c] show ?thesis by auto
qed


section \<open>Properties of the ranking\<close>

lemma slice_to_take: "\<exists>n. slice_to k xs = take n xs"
  by (auto simp: slice_to_def)

lemma length_slice_to: "0 \<le> k \<Longrightarrow> length (slice_to k xs) = min (nat k) (length xs)"
  by (simp add: slice_to_def)

lemma top_k_length:
  "0 \<le> k \<Longrightarrow> length (slice_to k (sorted_reverse f items)) = min (nat k) (length items)"
  by (simp add: length_slice_to sorted_reverse_def)

lemma top_k_distinct:
  assumes "distinct (map g items)"
  shows "distinct (map g (slice_to k (sorted_reverse f items)))"
proof -
  obtain n where n: "slice_to k (sorted_reverse f items) = take n (sorted_reverse f items)"
    using slice_to_take by blast
  from assms have "distinct (map g (sorted_reverse f items))"
    by (simp add: distinct_map sorted_reverse_def)
  then have "distinct (take n (map g (sorted_reverse f items)))" by (rule distinct_take)
  then show ?thesis by (simp add: n take_map)
qed

lemma top_k_sorted: "sorted_wrt (\<ge>) (map f (slice_to k (sorted_reverse f items)))"
proof -
  obtain n where n: "slice_to k (sorted_reverse f items) = take n (sorted_reverse f items)"
    using slice_to_take by blast
  have "sorted (map (\<lambda>x. - f x) (sorted_reverse f items))"
    unfolding sorted_reverse_def by (rule sorted_sort_key)
  then have "sorted_wrt (\<lambda>x y. f x \<ge> f y) (sorted_reverse f items)"
    by (simp add: sorted_map)
  then have "sorted_wrt (\<lambda>x y. f x \<ge> f y) (take n (sorted_reverse f items))"
    by (rule sorted_wrt_take)
  then show ?thesis by (simp add: n sorted_wrt_map)
qed

lemma nth_pair_subseq:
  "i < j \<Longrightarrow> j < length ys \<Longrightarrow> subseq [ys ! i, ys ! j] ys"
proof (induction ys arbitrary: i j)
  case Nil then show ?case by simp
next
  case (Cons y ys)
  show ?case
  proof (cases i)
    case 0
    with Cons.prems obtain j' where j: "j = Suc j'" "j' < length ys" by (cases j) auto
    then have "ys ! j' \<in> set ys" by simp
    then have "subseq [ys ! j'] ys" by (simp add: subseq_singleton_left)
    with 0 j show ?thesis by simp
  next
    case (Suc i')
    with Cons.prems obtain j' where j: "j = Suc j'" "i' < j'" "j' < length ys" by (cases j) auto
    from Cons.IH[OF j(2,3)] have "subseq [ys ! i', ys ! j'] ys" .
    then have "subseq [ys ! i', ys ! j'] (y # ys)" by (rule list_emb_Cons)
    with Suc j show ?thesis by simp
  qed
qed

lemma subseq_pair_nth:
  "subseq [a, b] xs \<Longrightarrow> \<exists>i j. i < j \<and> j < length xs \<and> xs ! i = a \<and> xs ! j = b"
proof (induction xs)
  case Nil then show ?case by simp
next
  case (Cons x xs)
  show ?case
  proof (cases "x = a \<and> subseq [b] xs")
    case True
    then have "b \<in> set xs" by (simp add: subseq_singleton_left)
    then obtain j where "j < length xs" "xs ! j = b" by (auto simp: in_set_conv_nth)
    with True have "0 < Suc j \<and> Suc j < length (x # xs) \<and> (x # xs) ! 0 = a \<and> (x # xs) ! Suc j = b"
      by simp
    then show ?thesis by blast
  next
    case False
    with Cons.prems have "subseq [a, b] xs" by (auto split: if_splits)
    from Cons.IH[OF this] obtain i j where "i < j" "j < length xs" "xs ! i = a" "xs ! j = b" by blast
    then have "Suc i < Suc j \<and> Suc j < length (x # xs) \<and> (x # xs) ! Suc i = a \<and> (x # xs) ! Suc j = b"
      by simp
    then show ?thesis by blast
  qed
qed

lemma top_k_stable:
  assumes "i < j" and "j < length (slice_to k (sorted_reverse f items))"
    and "f (slice_to k (sorted_reverse f items) ! i) = f (slice_to k (sorted_reverse f items) ! j)"
  shows "\<exists>i' j'. i' < j' \<and> j' < length items \<and>
           items ! i' = slice_to k (sorted_reverse f items) ! i \<and>
           items ! j' = slice_to k (sorted_reverse f items) ! j"
proof -
  let ?out = "slice_to k (sorted_reverse f items)"
  let ?a = "?out ! i" and ?b = "?out ! j"
  let ?P = "\<lambda>y. - f y = - f ?a"
  obtain n where n: "?out = take n (sorted_reverse f items)"
    using slice_to_take by blast
  have "subseq [?a, ?b] ?out" using assms(1,2) by (rule nth_pair_subseq)
  moreover have "subseq ?out (sorted_reverse f items)"
    unfolding n by (metis append_take_drop_id list_emb_prefix subseq_order.order_refl)
  ultimately have "subseq [?a, ?b] (sorted_reverse f items)"
    by (rule subseq_order.trans)
  then have "subseq (filter ?P [?a, ?b]) (filter ?P (sorted_reverse f items))"
    by (rule subseq_filter)
  moreover have "filter ?P [?a, ?b] = [?a, ?b]" using assms(3) by simp
  moreover have "filter ?P (sorted_reverse f items) = filter ?P items"
    unfolding sorted_reverse_def by (rule sort_key_stable)
  ultimately have "subseq [?a, ?b] (filter ?P items)" by simp
  moreover have "subseq (filter ?P items) items" by simp
  ultimately have "subseq [?a, ?b] items" by (rule subseq_order.trans)
  then show ?thesis using subseq_pair_nth by metis
qed

lemma cosine_row:
  assumes "a \<noteq> []" and "embeds \<noteq> []" and "list_all (\<lambda>e. length e = length a) embeds"
  shows "cosine_similarity cosine [a] embeds = Inr [map (cosine a) embeds]"
  using assms by (simp add: cosine_similarity_def shapes_agree_def)

lemma np_max_nonempty: "xs \<noteq> [] \<Longrightarrow> \<exists>s. np_max xs = Inr s"
  by (cases xs) (auto simp: np_max_def)

lemma tag_score_defined:
  assumes "a \<noteq> []" and "embeds \<noteq> []" and "list_all (\<lambda>e. length e = length a) embeds"
  shows "\<exists>sims s. cosine_similarity cosine [a] embeds = Inr [sims] \<and>
           first [sims] = Inr sims \<and> np_max sims = Inr s"
proof -
  let ?sims = "map (cosine a) embeds"
  have "?sims \<noteq> []" using assms(2) by simp
  from np_max_nonempty[OF this] obtain s where "np_max ?sims = Inr s" ..
  with cosine_row[OF assms] show ?thesis by (simp add: first_def)
qed

lemma dict_set_fresh: "k \<notin> fst ` set d \<Longrightarrow> dict_set k v d = d @ [(k, v)]"
  unfolding dict_set_def by (induction d) auto

lemma tag_similarities_loop_result:
  assumes "distinct (map fst d)" and "fst ` set d \<inter> fst ` set acc = {}"
    and "tag_similarities_loop cosine a d acc = Inr r"
  shows "\<exists>ss. length ss = length d \<and> r = acc @ zip (map fst d) ss"
  using assms
proof (induction d arbitrary: acc)
  case Nil
  then show ?case by simp
next
  case (Cons entry rest)
  obtain tag embeds where entry: "entry = (tag, embeds)" by (cases entry)
  from Cons.prems(3) obtain s where
    step: "tag_similarities_loop cosine a rest (dict_set tag s acc) = Inr r"
    by (auto simp: entry split: sum.splits)
  from Cons.prems(2) have "tag \<notin> fst ` set acc" by (auto simp: entry)
  then have ds: "dict_set tag s acc = acc @ [(tag, s)]" by (rule dict_set_fresh)
  have d1: "distinct (map fst rest)" using Cons.prems(1) by simp
  have d2: "fst ` set rest \<inter> fst ` set (dict_set tag s acc) = {}"
    using Cons.prems(1,2) by (auto simp: ds entry)
  from Cons.IH[OF d1 d2 step] obtain ss where
    "length ss = length rest" and "r = dict_set tag s acc @ zip (map fst rest) ss" by blast
  then have "length (s # ss) = length (entry # rest) \<and>
             r = acc @ zip (map fst (entry # rest)) (s # ss)"
    by (simp add: ds entry)
  then show ?case by blast
qed

lemma tag_similarities_loop_defined:
  assumes "embeddings_match a d"
  shows "\<exists>r. tag_similarities_loop cosine a d acc = Inr r"
  using assms
proof (induction d arbitrary: acc)
  case Nil
  show ?case by simp
next
  case (Cons entry rest)
  obtain tag embeds where entry: "entry = (tag, embeds)" by (cases entry)
  from Cons.prems have a: "a \<noteq> []" and e: "embeds \<noteq> []"
    and l: "list_all (\<lambda>e. length e = length a) embeds" and rest: "embeddings_match a rest"
    by (auto simp: embeddings_match_def entry)
  from tag_score_defined[OF a e l] obtain sims s where
    "cosine_similarity cosine [a] embeds = Inr [sims]" "first [sims] = Inr sims" "np_max sims = Inr s"
    by blast
  with Cons.IH[OF rest, of "dict_set tag s acc"] show ?case by (simp add: entry)
qed

lemma weighted_similarities_loop_result:
  assumes "distinct (map fst d)" and "fst ` set d \<inter> fst ` set acc = {}"
    and "weighted_similarities_loop cosine a d tbl acc = Inr r"
  shows "\<exists>ss. length ss = length d \<and> r = acc @ zip (map fst d) ss"
  using assms
proof (induction d arbitrary: acc)
  case Nil
  then show ?case by simp
next
  case (Cons entry rest)
  obtain tag embeds where entry: "entry = (tag, embeds)" by (cases entry)
  from Cons.prems(3) obtain s where
    step: "weighted_similarities_loop cosine a rest tbl (dict_set tag s acc) = Inr r"
    by (auto simp: entry Let_def split: sum.splits)
  from Cons.prems(2) have "tag \<notin> fst ` set acc" by (auto simp: entry)
  then have ds: "dict_set tag s acc = acc @ [(tag, s)]" by (rule dict_set_fresh)
  have d1: "distinct (map fst rest)" using Cons.prems(1) by simp
  have d2: "fst ` set rest \<inter> fst ` set (dict_set tag s acc) = {}"
    using Cons.prems(1,2) by (auto simp: ds entry)
  from Cons.IH[OF d1 d2 step] obtain ss where
    "length ss = length rest" and "r = dict_set tag s acc @ zip (map fst rest) ss" by blast
  then have "length (s # ss) = length (entry # rest) \<and>
             r = acc @ zip (map fst (entry # rest)) (s # ss)"
    by (simp add: ds entry)
  then show ?case by blast
qed

lemma weighted_similarities_loop_defined:
  assumes "embeddings_match a d"
  shows "\<exists>r. weighted_similarities_loop cosine a d tbl acc = Inr r"
  using assms
proof (induction d arbitrary: acc)
  case Nil
  show ?case by simp
next
  case (Cons entry rest)
  obtain tag embeds where entry: "entry = (tag, embeds)" by (cases entry)
  from Cons.prems have a: "a \<noteq> []" and e: "embeds \<noteq> []"
    and l: "list_all (\<lambda>e. length e = length a) embeds" and rest: "embeddings_match a rest"
    by (auto simp: embeddings_match_def entry)
  from tag_score_defined[OF a e l] obtain sims s where
    "cosine_similarity cosine [a] embeds = Inr [sims]" "first [sims] = Inr sims" "np_max sims = Inr s"
    by blast
  with Cons.IH[OF rest] show ?case by (simp add: entry Let_def)
qed

lemma get_tag_recommendations_result:
  assumes "distinct (map fst d)" and "get_tag_recommendations cosine a d k = Inr (tags, scores)"
  shows "\<exists>items. map fst items = map fst d \<and>
           tags = map fst (slice_to k (sorted_reverse snd items)) \<and>
           scores = map snd (slice_to k (sorted_reverse snd items))"
proof -
  from assms(2) obtain r where r: "tag_similarities_loop cosine a d [] = Inr r"
    and out: "tags = map fst (slice_to k (sorted_reverse snd r))"
             "scores = map snd (slice_to k (sorted_reverse snd r))"
    by (auto simp: get_tag_recommendations_def Let_def split: sum.splits)
  from tag_similarities_loop_result[OF assms(1) _ r] obtain ss where
    "length ss = length d" "r = zip (map fst d) ss" by auto
  then have "map fst r = map fst d" by (simp add: map_fst_zip)
  with out show ?thesis by (intro exI[of _ r]) simp
qed

lemma get_tag_recommendations_df_weighted_result:
  assumes "distinct (map fst d)"
    and "get_tag_recommendations_df_weighted cosine a d tbl k = Inr (tags, scores, bases, weights)"
  shows "\<exists>items :: (string \<times> similarity_entry) list. map fst items = map fst d \<and>
           tags = map fst (slice_to k (sorted_reverse (\<lambda>x. weighted_similarity (snd x)) items)) \<and>
           scores = map (\<lambda>x. weighted_similarity (snd x))
                      (slice_to k (sorted_reverse (\<lambda>x. weighted_similarity (snd x)) items))"
proof -
  from assms(2) obtain r where r: "weighted_similarities_loop cosine a d tbl [] = Inr r"
    and out: "tags = map fst (slice_to k (sorted_reverse (\<lambda>x. weighted_similarity (snd x)) r))"
             "scores = map (\<lambda>x. weighted_similarity (snd x))
                      (slice_to k (sorted_reverse (\<lambda>x. weighted_similarity (snd x)) r))"
    by (auto simp: get_tag_recommendations_df_weighted_def Let_def split: sum.splits)
  from weighted_similarities_loop_result[OF assms(1) _ r] obtain ss where
    "length ss = length d" "r = zip (map fst d) ss" by auto
  then have "map fst r = map fst d" by (simp add: map_fst_zip)
  with out show ?thesis by (intro exI[of _ r]) simp
qed

lemma top_k_shape:
  assumes "distinct (map fst d)" and "map fst items = map fst d" and "1 \<le> k"
    and "tags = map fst (slice_to k (sorted_reverse f items))"
    and "scores = map f (slice_to k (sorted_reverse f items))"
  shows "length tags = min (nat k) (length d) \<and> length scores = length tags \<and>
         distinct tags \<and> sorted_wrt (\<ge>) scores"
proof -
  have len: "length items = length d" using assms(2) by (metis length_map)
  from assms(3) have k: "0 \<le> k" by simp
  have "length tags = min (nat k) (length d)"
    using top_k_length[OF k, of f items] by (simp add: assms(4) len)
  moreover have "length scores = length tags" by (simp add: assms(4,5))
  moreover have "distinct tags"
    unfolding assms(4) using assms(1,2) by (intro top_k_distinct) simp
  moreover have "sorted_wrt (\<ge>) scores" unfolding assms(5) by (rule top_k_sorted)
  ultimately show ?thesis by blast
qed

text \<open>
  C2.  Whatever numbers the library returns as similarities: for well-formed embeddings
  and \<open>K \<ge> 1\<close>, both recommenders return; the list of tags has length
  \<open>min(K, number of tags in the mapping)\<close>, the list of scores has the same length, no
  tag occurs twice, and the scores are non-increasing.  The keys of a Python dictionary
  are distinct.
\<close>

theorem recommendation_list_shape:
  assumes "distinct (map fst tag_embeds)" and "embeddings_match audio tag_embeds" and "1 \<le> k"
  shows "(\<exists>tags scores.
            get_tag_recommendations cosine audio tag_embeds k = Inr (tags, scores) \<and>
            length tags = min (nat k) (length tag_embeds) \<and> length scores = length tags \<and>
            distinct tags \<and> sorted_wrt (\<ge>) scores) \<and>
         (\<exists>tags scores bases weights.
            get_tag_recommendations_df_weighted cosine audio tag_embeds df_scores k =
              Inr (tags, scores, bases, weights) \<and>
            length tags = min (nat k) (length tag_embeds) \<and> length scores = length tags \<and>
            distinct tags \<and> sorted_wrt (\<ge>) scores)"
proof
  from tag_similarities_loop_defined[OF assms(2), where cosine = cosine and acc = "[]"]
  obtain tags scores where r: "get_tag_recommendations cosine audio tag_embeds k = Inr (tags, scores)"
    by (auto simp: get_tag_recommendations_def Let_def)
  from get_tag_recommendations_result[OF assms(1) r] obtain items where
    "map fst items = map fst tag_embeds"
    "tags = map fst (slice_to k (sorted_reverse snd items))"
    "scores = map snd (slice_to k (sorted_reverse snd items))" by blast
  from top_k_shape[OF assms(1) this(1) assms(3) this(2,3)] r
  show "\<exists>tags scores.
            get_tag_recommendations cosine audio tag_embeds k = Inr (tags, scores) \<and>
            length tags = min (nat k) (length tag_embeds) \<and> length scores = length tags \<and>
            distinct tags \<and> sorted_wrt (\<ge>) scores" by blast
next
  from weighted_similarities_loop_defined[OF assms(2), where cosine = cosine and tbl = df_scores
      and acc = "[]"]
  obtain tags scores bases weights where
    r: "get_tag_recommendations_df_weighted cosine audio tag_embeds df_scores k =
          Inr (tags, scores, bases, weights)"
    by (auto simp: get_tag_recommendations_df_weighted_def Let_def)
  from get_tag_recommendations_df_weighted_result[OF assms(1) r]
  obtain items :: "(string \<times> similarity_entry) list" where
    "map fst items = map fst tag_embeds"
    "tags = map fst (slice_to k (sorted_reverse (\<lambda>x. weighted_similarity (snd x)) items))"
    "scores = map (\<lambda>x. weighted_similarity (snd x))
                      (slice_to k (sorted_reverse (\<lambda>x. weighted_similarity (snd x)) items))"
    by blast
  from top_k_shape[OF assms(1) this(1) assms(3) this(2,3)] r
  show "\<exists>tags scores bases weights.
            get_tag_recommendations_df_weighted cosine audio tag_embeds df_scores k =
              Inr (tags, scores, bases, weights) \<and>
            length tags = min (nat k) (length tag_embeds) \<and> length scores = length tags \<and>
            distinct tags \<and> sorted_wrt (\<ge>) scores" by blast
qed

theorem recommendation_list_shape_witness:
  "(\<exists>tags scores.
      get_tag_recommendations exact_cosine [1, 0] [(''rain'', [[1, 0], [0, 1]]), (''wind'', [[0, 1]])] 1 =
        Inr (tags, scores) \<and>
      length tags = 1 \<and> length scores = length tags \<and> distinct tags \<and> sorted_wrt (\<ge>) scores) \<and>
   (\<exists>tags scores bases weights.
      get_tag_recommendations_df_weighted exact_cosine [1, 0]
          [(''rain'', [[1, 0], [0, 1]]), (''wind'', [[0, 1]])] [(''rain'', 1/2)] 1 =
        Inr (tags, scores, bases, weights) \<and>
      length tags = 1 \<and> length scores = length tags \<and> distinct tags \<and> sorted_wrt (\<ge>) scores)"
proof -
  have d: "distinct (map fst [(''rain'', [[1, 0], [0, 1 :: real]]), (''wind'', [[0, 1]])])" by simp
  have m: "embeddings_match [1, 0] [(''rain'', [[1, 0], [0, 1]]), (''wind'', [[0, 1]])]"
    by (simp add: embeddings_match_def)
  have k: "(1::int) \<le> 1" by simp
  from recommendation_list_shape[OF d m k, where cosine = exact_cosine
      and df_scores = "[(''rain'', 1/2)]"]
  show ?thesis by simp
qed

lemma dict_set_keys:
  "map fst (dict_set k v d) = (if k \<in> set (map fst d) then map fst d else map fst d @ [k])"
  unfolding dict_set_def by (rule update_keys)

lemma fill_keys_distinct:
  "distinct (map fst d) \<Longrightarrow> distinct (map fst (fill_tag_embeddings xs d))"
  by (induction xs d rule: fill_tag_embeddings.induct) (simp_all add: dict_set_def distinct_update)

lemma fill_keys_subseq:
  "subseq (map fst (fill_tag_embeddings xs d)) (map fst d @ map fst xs)"
proof (induction xs d rule: fill_tag_embeddings.induct)
  case (1 d)
  show ?case by simp
next
  case (2 tag embeds rest d)
  have "subseq (map fst rest) (tag # map fst rest)"
    by (rule list_emb_Cons) simp
  then have "subseq (map fst d @ map fst rest) (map fst d @ tag # map fst rest)"
    by (simp only: subseq_append')
  then have "subseq (map fst (dict_set tag embeds d) @ map fst rest) (map fst d @ tag # map fst rest)"
    by (simp add: dict_set_keys)
  with "2.IH" show ?case by (auto intro: subseq_order.trans)
qed

text \<open>
  Every association list with distinct keys is the dictionary obtained by assigning its
  entries in order.
\<close>

lemma fill_tag_embeddings_distinct:
  "distinct (map fst xs) \<Longrightarrow> fst ` set xs \<inter> fst ` set d = {} \<Longrightarrow> fill_tag_embeddings xs d = d @ xs"
proof (induction xs d rule: fill_tag_embeddings.induct)
  case (1 d) show ?case by simp
next
  case (2 tag embeds rest d)
  from "2.prems" have fresh: "tag \<notin> fst ` set d" by auto
  then have ds: "dict_set tag embeds d = d @ [(tag, embeds)]" by (rule dict_set_fresh)
  have "fill_tag_embeddings rest (dict_set tag embeds d) = dict_set tag embeds d @ rest"
    using "2.prems" by (intro "2.IH") (auto simp: ds)
  then show ?case by (simp add: ds)
qed

text \<open>
  C8.  The mapping is filled by assignment over the (tag, embeddings) pairs in vocabulary
  order.  Whatever numbers the library returns as similarities: if the tags at ranks
  \<open>i < j\<close> of the output have equal scores, they occur in that order in the vocabulary.
  The output is a function of the inputs.
\<close>

theorem equal_scores_keep_vocabulary_order:
  assumes "get_tag_recommendations cosine audio (fill_tag_embeddings items []) k = Inr (tags, scores) \<or>
           (\<exists>bases weights.
              get_tag_recommendations_df_weighted cosine audio (fill_tag_embeddings items []) df_scores k =
                Inr (tags, scores, bases, weights))"
    and "i < j" and "j < length tags" and "scores ! i = scores ! j"
  shows "\<exists>i' j'. i' < j' \<and> j' < length items \<and>
           fst (items ! i') = tags ! i \<and> fst (items ! j') = tags ! j"
proof -
  let ?d = "fill_tag_embeddings items []"
  have dist: "distinct (map fst ?d)" by (rule fill_keys_distinct) simp
  have "subseq [tags ! i, tags ! j] (map fst ?d)"
  proof -
    have gen: "subseq [tags ! i, tags ! j] (map fst ?d)"
      if its: "map fst its = map fst ?d"
        and t: "tags = map fst (slice_to k (sorted_reverse f its))"
        and s: "scores = map f (slice_to k (sorted_reverse f its))"
      for its :: "(string \<times> 'x) list" and f
    proof -
      let ?out = "slice_to k (sorted_reverse f its)"
      have j: "j < length ?out" using assms(3) by (simp add: t)
      with assms(2) have i: "i < length ?out" by simp
      have "f (?out ! i) = f (?out ! j)" using assms(4) i j by (simp add: s)
      from top_k_stable[OF assms(2) j this] obtain i' j' where
        ij: "i' < j'" "j' < length its" "its ! i' = ?out ! i" "its ! j' = ?out ! j" by blast
      have "subseq [map fst its ! i', map fst its ! j'] (map fst its)"
        using ij(1,2) by (intro nth_pair_subseq) simp_all
      moreover have "map fst its ! i' = tags ! i" using ij i by (simp add: t)
      moreover have "map fst its ! j' = tags ! j" using ij j by (simp add: t)
      ultimately show ?thesis by (simp add: its)
    qed
    from assms(1) show ?thesis
    proof
      assume "get_tag_recommendations cosine audio ?d k = Inr (tags, scores)"
      from get_tag_recommendations_result[OF dist this] obtain its where
        "map fst its = map fst ?d"
        "tags = map fst (slice_to k (sorted_reverse snd its))"
        "scores = map snd (slice_to k (sorted_reverse snd its))" by blast
      then show ?thesis by (rule gen)
    next
      assume "\<exists>bases weights.
              get_tag_recommendations_df_weighted cosine audio ?d df_scores k =
                Inr (tags, scores, bases, weights)"
      then obtain bases weights where
        "get_tag_recommendations_df_weighted cosine audio ?d df_scores k =
           Inr (tags, scores, bases, weights)" by blast
      from get_tag_recommendations_df_weighted_result[OF dist this]
      obtain its :: "(string \<times> similarity_entry) list" where
        "map fst its = map fst ?d"
        "tags = map fst (slice_to k (sorted_reverse (\<lambda>x. weighted_similarity (snd x)) its))"
        "scores = map (\<lambda>x. weighted_similarity (snd x))
                    (slice_to k (sorted_reverse (\<lambda>x. weighted_similarity (snd x)) its))"
        by blast
      then show ?thesis by (rule gen)
    qed
  qed
  moreover have "subseq (map fst ?d) (map fst items)"
    using fill_keys_subseq[of items "[]"] by simp
  ultimately have "subseq [tags ! i, tags ! j] (map fst items)"
    by (rule subseq_order.trans)
  from subseq_pair_nth[OF this] obtain i' j' where
    "i' < j'" "j' < length (map fst items)"
    "map fst items ! i' = tags ! i" "map fst items ! j' = tags ! j" by blast
  then have "i' < j' \<and> j' < length items \<and> fst (items ! i') = tags ! i \<and> fst (items ! j') = tags ! j"
    by simp
  then show ?thesis by blast
qed

theorem equal_scores_keep_vocabulary_order_witness:
  "get_tag_recommendations exact_cosine [1, 0]
     (fill_tag_embeddings [(''wind'', [[1, 0]]), (''rain'', [[0, 1]]), (''car'', [[2, 0]])] []) 2 =
     Inr ([''wind'', ''car''], [1, 1]) \<and>
   (\<exists>i' j'. i' < j' \<and> j' < length [(''wind'', [[1, 0 :: real]]), (''rain'', [[0, 1]]), (''car'', [[2, 0]])] \<and>
       fst ([(''wind'', [[1, 0 :: real]]), (''rain'', [[0, 1]]), (''car'', [[2, 0]])] ! i') = [''wind'', ''car''] ! 0 \<and>
       fst ([(''wind'', [[1, 0 :: real]]), (''rain'', [[0, 1]]), (''car'', [[2, 0]])] ! j') = [''wind'', ''car''] ! 1)"
proof -
  have r: "get_tag_recommendations exact_cosine [1, 0]
     (fill_tag_embeddings [(''wind'', [[1, 0]]), (''rain'', [[0, 1]]), (''car'', [[2, 0]])] []) 2 =
     Inr ([''wind'', ''car''], [1, 1])"
    by (simp add: get_tag_recommendations_def cosine_similarity_def exact_cosine_def shapes_agree_def first_def
        np_max_def dot_def row_norm_def normalize_row_def dict_set_def sorted_reverse_def
        slice_to_def)
  have ij: "(0::nat) < 1" and j: "1 < length [''wind'', ''car'']"
    and eq: "[1, 1 :: real] ! 0 = [1, 1] ! 1" by simp_all
  from equal_scores_keep_vocabulary_order[OF disjI1[OF r] ij j eq] r show ?thesis by blast
qed


section \<open>Properties of the semantic hits\<close>

lemma dot_Cons: "dot (a # x) (b # y) = a * b + dot x y"
  by (simp add: dot_def)

lemma dot_scale: "dot (map (\<lambda>a. a / n) x) (map (\<lambda>a. a / m) y) = dot x y / (n * m)"
proof (induction x arbitrary: y)
  case Nil
  show ?case by (simp add: dot_def)
next
  case (Cons a x)
  show ?case
  proof (cases y)
    case Nil
    then show ?thesis by (simp add: dot_def)
  next
    case (Cons b y')
    have "dot (map (\<lambda>a. a / n) x) (map (\<lambda>a. a / m) y') = dot x y' / (n * m)"
      by (rule Cons.IH)
    then show ?thesis
      unfolding Cons dot_def by (simp add: add_divide_distrib)
  qed
qed

lemma dot_self_nonneg: "0 \<le> dot x x"
  by (induction x) (simp_all add: dot_def)

lemma dot_self_pos: "\<exists>a \<in> set x. a \<noteq> 0 \<Longrightarrow> 0 < dot x x"
proof (induction x)
  case Nil
  then show ?case by simp
next
  case (Cons a x)
  have nn: "0 \<le> dot x x" by (rule dot_self_nonneg)
  show ?case
  proof (cases "a = 0")
    case True
    with Cons.prems have "\<exists>a \<in> set x. a \<noteq> 0" by simp
    then have "0 < dot x x" by (rule Cons.IH)
    with True show ?thesis by (simp add: dot_Cons)
  next
    case False
    then have "0 < a * a" by (cases "0 < a") (auto simp: zero_less_mult_iff)
    with nn have "0 < a * a + dot x x" by simp
    then show ?thesis by (simp only: dot_Cons)
  qed
qed

text \<open>
  In exact arithmetic a non-zero vector has cosine similarity 1 with itself, and the zero
  vector has 0.
\<close>

lemma exact_cosine_zero:
  assumes "\<forall>a \<in> set v. a = 0"
  shows "exact_cosine v v = 0"
proof -
  have "dot x y = 0" if "\<forall>a \<in> set x. a = 0" for x y
    using that
  proof (induction x arbitrary: y)
    case Nil
    show ?case by (simp add: dot_def)
  next
    case (Cons a x)
    then show ?case by (cases y) (simp_all add: dot_def)
  qed
  moreover have "\<forall>a \<in> set (normalize_row v). a = 0"
    using assms by (simp add: normalize_row_def Let_def)
  ultimately show ?thesis by (simp add: exact_cosine_def)
qed

lemma exact_cosine_self:
  assumes "\<exists>a \<in> set v. a \<noteq> 0"
  shows "exact_cosine v v = 1"
proof -
  have pos: "0 < dot v v" using assms by (rule dot_self_pos)
  then have n: "row_norm v \<noteq> 0" by (simp add: row_norm_def)
  have "row_norm v * row_norm v = dot v v"
    using pos by (simp add: row_norm_def)
  with pos n show ?thesis
    by (simp add: exact_cosine_def normalize_row_def Let_def dot_scale)
qed

lemma cosine_pair:
  assumes "p \<noteq> []" and "length g = length p"
  shows "cosine_similarity cosine [p] [g] = Inr [[cosine p g]]"
  using assms by (simp add: cosine_similarity_def shapes_agree_def)

lemma best_match_loop_bound:
  assumes "p \<noteq> []" and "\<forall>g \<in> set gts. \<forall>ge. emb g = Some ge \<longrightarrow> length ge = length p"
  shows "\<exists>m b. best_match_loop cosine p emb gts (m0, b0) = Inr (m, b) \<and> m0 \<le> m \<and>
           (\<forall>g \<in> set gts. \<forall>ge. emb g = Some ge \<longrightarrow> cosine p ge \<le> m)"
  using assms(2)
proof (induction gts arbitrary: m0 b0)
  case Nil
  show ?case by simp
next
  case (Cons g gts)
  from Cons.prems have rest: "\<forall>g \<in> set gts. \<forall>ge. emb g = Some ge \<longrightarrow> length ge = length p"
    by simp
  show ?case
  proof (cases "emb g")
    case None
    from Cons.IH[OF rest, where ?m0.0 = m0 and ?b0.0 = b0] None show ?thesis by auto
  next
    case (Some ge)
    with Cons.prems have len: "length ge = length p" by simp
    let ?s = "cosine p ge"
    note cp = cosine_pair[OF assms(1) len]
    show ?thesis
    proof (cases "?s > m0")
      case True
      from Cons.IH[OF rest, where ?m0.0 = ?s and ?b0.0 = "Some g"] obtain m b where
        "best_match_loop cosine p emb gts (?s, Some g) = Inr (m, b)" "?s \<le> m"
        "\<forall>g \<in> set gts. \<forall>ge. emb g = Some ge \<longrightarrow> cosine p ge \<le> m"
        by blast
      with True Some cp show ?thesis by (auto simp: first_def)
    next
      case False
      from Cons.IH[OF rest, where ?m0.0 = m0 and ?b0.0 = b0] obtain m b where
        "best_match_loop cosine p emb gts (m0, b0) = Inr (m, b)" "m0 \<le> m"
        "\<forall>g \<in> set gts. \<forall>ge. emb g = Some ge \<longrightarrow> cosine p ge \<le> m"
        by blast
      with False Some cp show ?thesis by (auto simp: first_def)
    qed
  qed
qed

lemma semantic_hits_loop_contains:
  assumes "0 < n"
    and "\<forall>t \<in> set preds \<union> set gts. \<exists>v. emb t = Some v \<and> length v = n"
    and "\<forall>t \<in> set preds \<inter> set gts. \<exists>v. emb t = Some v \<and> th \<le> cosine v v"
  shows "\<exists>hs' ms'. semantic_hits_loop cosine preds gts emb th (hs, ms) = Inr (hs', ms') \<and>
           set hs \<union> (set preds \<inter> set gts) \<subseteq> set hs'"
  using assms(2,3)
proof (induction preds arbitrary: hs ms)
  case Nil
  show ?case by simp
next
  case (Cons p preds)
  from Cons.prems(1) obtain pe where pe: "emb p = Some pe" "length pe = n"
    by auto
  from pe(2) assms(1) have ne: "pe \<noteq> []" by auto
  have shapes: "\<forall>g \<in> set gts. \<forall>ge. emb g = Some ge \<longrightarrow> length ge = length pe"
  proof (intro ballI allI impI)
    fix g ge
    assume g: "g \<in> set gts" and ge: "emb g = Some ge"
    from Cons.prems(1) g obtain v where "emb g = Some v" "length v = n" by auto
    with ge pe(2) show "length ge = length pe" by simp
  qed
  from best_match_loop_bound[OF ne shapes, where cosine = cosine and ?m0.0 = 0 and ?b0.0 = None]
  obtain m b where
    bm: "best_match_loop cosine pe emb gts (0, None) = Inr (m, b)"
    and bound: "\<forall>g \<in> set gts. \<forall>ge. emb g = Some ge \<longrightarrow> cosine pe ge \<le> m"
    by blast
  have rest1: "\<forall>t \<in> set preds \<union> set gts. \<exists>v. emb t = Some v \<and> length v = n"
    using Cons.prems(1) by auto
  have rest2: "\<forall>t \<in> set preds \<inter> set gts. \<exists>v. emb t = Some v \<and> th \<le> cosine v v"
    using Cons.prems(2) by auto
  show ?case
  proof (cases "m \<ge> th")
    case True
    let ?hs = "hs @ [p]"
    let ?ms = "ms @ [\<lparr>predicted = p, matched_gt = b, similarity = m\<rparr>]"
    from Cons.IH[OF rest1 rest2, of ?hs ?ms] obtain hs' ms' where
      "semantic_hits_loop cosine preds gts emb th (?hs, ?ms) = Inr (hs', ms')"
      "set ?hs \<union> (set preds \<inter> set gts) \<subseteq> set hs'" by blast
    with True pe(1) bm show ?thesis by auto
  next
    case False
    have "p \<notin> set gts"
    proof
      assume in_gt: "p \<in> set gts"
      with bound pe(1) have "cosine pe pe \<le> m" by blast
      moreover from Cons.prems(2) in_gt pe(1) have "th \<le> cosine pe pe" by auto
      ultimately show False using False by simp
    qed
    moreover from Cons.IH[OF rest1 rest2, of hs ms] obtain hs' ms' where
      "semantic_hits_loop cosine preds gts emb th (hs, ms) = Inr (hs', ms')"
      "set hs \<union> (set preds \<inter> set gts) \<subseteq> set hs'" by blast
    ultimately show ?thesis using False pe(1) bm by auto
  qed
qed

lemma set_intersection_list: "set (intersection_list a b) = set a \<inter> set b"
  by (auto simp: intersection_list_def)

lemma length_intersection_list: "length (intersection_list a b) \<le> length b"
proof -
  have "distinct (intersection_list a b)" by (simp add: intersection_list_def)
  then have "length (intersection_list a b) = card (set a \<inter> set b)"
    by (metis distinct_card set_intersection_list)
  also have "\<dots> \<le> card (set b)" by (simp add: card_mono)
  also have "\<dots> \<le> length b" by (rule card_length)
  finally show ?thesis .
qed

lemma exact_recall_le_one:
  "(if gt \<noteq> [] then real (length (intersection_list a gt)) / real (length gt) else 0) \<le> 1"
  using length_intersection_list[of a gt] by (cases gt) (simp_all add: field_simps)

text \<open>
  C4, as stated, fails: a tag that is predicted and in the ground truth, and whose phrase
  embedding is the zero vector, is an exact hit and no semantic hit at threshold 0.7,
  since the cosine similarity of the zero vector with itself is 0.
\<close>

theorem zero_embedding_counterexample:
  "evaluate_sbert exact_cosine [''rain''] [''rain''] [''rain'' \<mapsto> [0, 0]] (7/10) =
     Inr \<lparr>sbert_ground_truth_tags = [''rain''], sbert_predicted_tags = [''rain''],
          semantic_hits = [], semantic_matches = [], exact_hits = [''rain''],
          num_semantic_hits = 0, num_exact_hits = 1,
          sbert_precision_at_10 = 0, sbert_recall = 0, sbert_f1_score = 0\<rparr>"
  by (simp add: evaluate_sbert_def compute_semantic_hits_def cosine_similarity_def
      exact_cosine_def shapes_agree_def first_def dot_def row_norm_def normalize_row_def
      clip_metrics_def py_div_def intersection_list_def lower_def lower_char_def Let_def)

text \<open>
  C4, amended.  Whatever numbers the library returns: if every predicted and every
  ground-truth tag has a phrase embedding of the encoder's dimension \<open>n \<ge> 1\<close>, and for
  every tag that is, lower-cased, both predicted and in the ground truth the similarity
  computed between its embedding and itself is at least the threshold, the loop body
  returns and every exact hit is a semantic hit.
\<close>

theorem exact_hits_subset_semantic_hits:
  assumes "0 < n"
    and "\<forall>t \<in> set predicted_list \<union> set pair_ground_truth_tags.
           \<exists>v. tag_to_sbert (lower t) = Some v \<and> length v = n"
    and "\<forall>t \<in> set (map lower predicted_list) \<inter> set (map lower pair_ground_truth_tags).
           \<exists>v. tag_to_sbert t = Some v \<and> threshold \<le> cosine v v"
  shows "\<exists>r. evaluate_sbert cosine predicted_list pair_ground_truth_tags tag_to_sbert threshold
               = Inr r \<and>
           set (exact_hits r) \<subseteq> set (semantic_hits r)"
proof -
  let ?preds = "map lower predicted_list"
  let ?gts = "map lower pair_ground_truth_tags"
  have emb: "\<forall>t \<in> set ?preds \<union> set ?gts. \<exists>v. tag_to_sbert t = Some v \<and> length v = n"
    using assms(2) by auto
  from semantic_hits_loop_contains[where cosine = cosine and hs = "[]" and ms = "[]",
      OF assms(1) emb assms(3)]
  obtain hs ms where
    loop: "semantic_hits_loop cosine ?preds ?gts tag_to_sbert threshold ([], []) = Inr (hs, ms)"
    and sub: "set ?preds \<inter> set ?gts \<subseteq> set hs" by auto
  have idem: "map lower ?gts = ?gts" by (simp add: lower_idem)
  have sem: "compute_semantic_hits cosine predicted_list ?gts tag_to_sbert threshold
               = Inr (hs, ms)"
    unfolding compute_semantic_hits_def idem by (rule loop)
  obtain p r f where m: "clip_metrics hs ?gts = Inr (p, r, f)"
    using clip_metrics_value[of hs ?gts] by blast
  let ?r = "\<lparr>sbert_ground_truth_tags = ?gts, sbert_predicted_tags = predicted_list,
             semantic_hits = hs, semantic_matches = ms,
             exact_hits = intersection_list ?preds ?gts, num_semantic_hits = length hs,
             num_exact_hits = length (intersection_list ?preds ?gts),
             sbert_precision_at_10 = p, sbert_recall = r, sbert_f1_score = f\<rparr>"
  have "evaluate_sbert cosine predicted_list pair_ground_truth_tags tag_to_sbert threshold
          = Inr ?r"
    by (simp add: evaluate_sbert_def Let_def sem m)
  moreover have "set (exact_hits ?r) \<subseteq> set (semantic_hits ?r)"
    using sub by (simp add: set_intersection_list)
  ultimately show ?thesis by blast
qed

text \<open>
  Two instances: unit vectors at threshold 0.7, where \<open>rain\<close> is in both lists and has
  similarity 1 with itself; and the zero vector at threshold 0.
\<close>

theorem exact_hits_subset_semantic_hits_witness:
  "(\<exists>r. evaluate_sbert exact_cosine [''Rain'', ''wind''] [''rain'', ''Sea'']
          [''rain'' \<mapsto> [1, 0], ''wind'' \<mapsto> [0, 1], ''sea'' \<mapsto> [0, 2]] (7/10) = Inr r \<and>
        set (exact_hits r) \<subseteq> set (semantic_hits r)) \<and>
   (\<exists>r. evaluate_sbert exact_cosine [''rain''] [''rain''] [''rain'' \<mapsto> [0, 0]] 0 = Inr r \<and>
        set (exact_hits r) \<subseteq> set (semantic_hits r))"
proof
  have n: "(0::nat) < 2" by simp
  have e: "\<forall>t \<in> set [''Rain'', ''wind''] \<union> set [''rain'', ''Sea''].
             \<exists>v. [''rain'' \<mapsto> [1, 0], ''wind'' \<mapsto> [0, 1], ''sea'' \<mapsto> [0, 2::real]] (lower t)
                   = Some v \<and> length v = 2"
    by (simp add: lower_def lower_char_def char_of_eq_iff)
  have one: "exact_cosine [1, 0] [1, 0] = 1"
    by (rule exact_cosine_self) simp
  have c: "\<forall>t \<in> set (map lower [''Rain'', ''wind'']) \<inter> set (map lower [''rain'', ''Sea'']).
             \<exists>v. [''rain'' \<mapsto> [1, 0], ''wind'' \<mapsto> [0, 1], ''sea'' \<mapsto> [0, 2::real]] t = Some v \<and>
                 7/10 \<le> exact_cosine v v"
    by (auto simp: lower_def lower_char_def char_of_eq_iff one)
  from exact_hits_subset_semantic_hits[where cosine = exact_cosine, OF n e c]
  show "\<exists>r. evaluate_sbert exact_cosine [''Rain'', ''wind''] [''rain'', ''Sea'']
          [''rain'' \<mapsto> [1, 0], ''wind'' \<mapsto> [0, 1], ''sea'' \<mapsto> [0, 2]] (7/10) = Inr r \<and>
        set (exact_hits r) \<subseteq> set (semantic_hits r)" .
next
  have n: "(0::nat) < 2" by simp
  have e: "\<forall>t \<in> set [''rain''] \<union> set [''rain''].
             \<exists>v. [''rain'' \<mapsto> [0, 0::real]] (lower t) = Some v \<and> length v = 2"
    by (simp add: lower_def lower_char_def)
  have zero: "exact_cosine [0, 0] [0, 0] = 0"
    by (rule exact_cosine_zero) simp
  have c: "\<forall>t \<in> set (map lower [''rain'']) \<inter> set (map lower [''rain'']).
             \<exists>v. [''rain'' \<mapsto> [0, 0::real]] t = Some v \<and> 0 \<le> exact_cosine v v"
    by (auto simp: lower_def lower_char_def zero)
  from exact_hits_subset_semantic_hits[where cosine = exact_cosine, OF n e c]
  show "\<exists>r. evaluate_sbert exact_cosine [''rain''] [''rain''] [''rain'' \<mapsto> [0, 0]] 0 = Inr r \<and>
        set (exact_hits r) \<subseteq> set (semantic_hits r)" .
qed

lemma best_match_loop_filter:
  assumes "\<And>g. P g \<longleftrightarrow> emb g \<noteq> None"
  shows "best_match_loop cosine p emb (filter P gts) acc = best_match_loop cosine p emb gts acc"
proof (induction gts arbitrary: acc)
  case Nil
  show ?case by simp
next
  case (Cons g gts)
  obtain m b where acc: "acc = (m, b)" by (cases acc)
  show ?case
  proof (cases "emb g")
    case None
    then have "\<not> P g" by (simp add: assms)
    with None Cons.IH show ?thesis by (simp add: acc)
  next
    case (Some ge)
    then have "P g" by (simp add: assms)
    with Some Cons.IH show ?thesis by (simp add: acc split: sum.splits)
  qed
qed

lemma semantic_hits_loop_filter:
  assumes "\<And>g. P g \<longleftrightarrow> emb g \<noteq> None"
  shows "semantic_hits_loop cosine (filter P preds) (filter P gts) emb th acc =
         semantic_hits_loop cosine preds gts emb th acc"
proof (induction preds arbitrary: acc)
  case Nil
  obtain hs ms where "acc = (hs, ms)" by (cases acc)
  then show ?case by simp
next
  case (Cons p preds)
  obtain hs ms where acc: "acc = (hs, ms)" by (cases acc)
  show ?case
  proof (cases "emb p")
    case None
    then have "\<not> P p" by (simp add: assms)
    with None Cons.IH show ?thesis by (simp add: acc)
  next
    case (Some pe)
    then have "P p" by (simp add: assms)
    with Some Cons.IH show ?thesis
      by (simp add: acc best_match_loop_filter[of P, OF assms] split: sum.splits prod.splits)
  qed
qed

text \<open>
  C6, as stated, fails: the per-clip record is the same whether the predicted tag
  \<open>zzz\<close> has no phrase embedding and is skipped, or has one and matches nothing.  No
  field counts or names a skipped tag.  On these unit vectors the similarities are 0 and
  1, in floating-point arithmetic as in exact arithmetic.
\<close>

theorem silent_skip_counterexample:
  "evaluate_sbert exact_cosine [''zzz'', ''drum''] [''drum''] [''drum'' \<mapsto> [1, 0]] (7/10) =
     Inr \<lparr>sbert_ground_truth_tags = [''drum''], sbert_predicted_tags = [''zzz'', ''drum''],
          semantic_hits = [''drum''],
          semantic_matches =
            [\<lparr>predicted = ''drum'', matched_gt = Some ''drum'', similarity = 1\<rparr>],
          exact_hits = [''drum''], num_semantic_hits = 1, num_exact_hits = 1,
          sbert_precision_at_10 = 1/10, sbert_recall = 1, sbert_f1_score = 2/11\<rparr> \<and>
   evaluate_sbert exact_cosine [''zzz'', ''drum''] [''drum''] [''drum'' \<mapsto> [1, 0], ''zzz'' \<mapsto> [0, 1]]
       (7/10) =
     Inr \<lparr>sbert_ground_truth_tags = [''drum''], sbert_predicted_tags = [''zzz'', ''drum''],
          semantic_hits = [''drum''],
          semantic_matches =
            [\<lparr>predicted = ''drum'', matched_gt = Some ''drum'', similarity = 1\<rparr>],
          exact_hits = [''drum''], num_semantic_hits = 1, num_exact_hits = 1,
          sbert_precision_at_10 = 1/10, sbert_recall = 1, sbert_f1_score = 2/11\<rparr> \<and>
   lower ''zzz'' \<notin> dom [''drum'' \<mapsto> [1, 0 :: real]] \<and>
   lower ''zzz'' \<in> dom [''drum'' \<mapsto> [1, 0 :: real], ''zzz'' \<mapsto> [0, 1]]"
  by (simp add: evaluate_sbert_def compute_semantic_hits_def cosine_similarity_def exact_cosine_def
      shapes_agree_def first_def dot_def row_norm_def normalize_row_def clip_metrics_def
      py_div_def intersection_list_def lower_def lower_char_def Let_def)

text \<open>
  C6, amended.  In semantic evaluation a predicted or ground-truth tag without a phrase
  embedding is skipped silently: whatever numbers the library returns as similarities,
  hits and matches are exactly those computed from the tags that have one.
\<close>

theorem missing_embeddings_dropped:
  "compute_semantic_hits cosine predicted_list ground_truth tag_to_sbert threshold =
   compute_semantic_hits cosine
     (filter (\<lambda>t. lower t \<in> dom tag_to_sbert) predicted_list)
     (filter (\<lambda>t. lower t \<in> dom tag_to_sbert) ground_truth)
     tag_to_sbert threshold"
proof -
  let ?P = "\<lambda>t. t \<in> dom tag_to_sbert"
  have P: "?P g \<longleftrightarrow> tag_to_sbert g \<noteq> None" for g by (simp only: domIff)
  have m: "map lower (filter (\<lambda>t. lower t \<in> dom tag_to_sbert) xs) = filter ?P (map lower xs)" for xs
    by (simp only: filter_map comp_def)
  show ?thesis
    unfolding compute_semantic_hits_def m
    by (rule semantic_hits_loop_filter[of ?P, OF P, symmetric])
qed

text \<open>
  C10.  Two distinct predicted tags both match the single ground-truth tag: the semantic
  hit list has two elements and the recorded recall is 2.  The three embeddings are
  parallel with components 0, 1 and 2, so both similarities are 1 in floating-point
  arithmetic as in exact arithmetic.  In exact mode the hits never outnumber the
  ground-truth tags and the recall never exceeds 1.
\<close>

theorem semantic_recall_can_exceed_one:
  "evaluate_sbert exact_cosine [''kick'', ''snare''] [''drum'']
     [''kick'' \<mapsto> [1, 0], ''snare'' \<mapsto> [2, 0], ''drum'' \<mapsto> [1, 0]] (7/10) =
     Inr \<lparr>sbert_ground_truth_tags = [''drum''], sbert_predicted_tags = [''kick'', ''snare''],
          semantic_hits = [''kick'', ''snare''],
          semantic_matches =
            [\<lparr>predicted = ''kick'', matched_gt = Some ''drum'', similarity = 1\<rparr>,
             \<lparr>predicted = ''snare'', matched_gt = Some ''drum'', similarity = 1\<rparr>],
          exact_hits = [], num_semantic_hits = 2, num_exact_hits = 0,
          sbert_precision_at_10 = 1/5, sbert_recall = 2, sbert_f1_score = 4/11\<rparr> \<and>
   (\<exists>r. evaluate_exact predicted_list pair_ground_truth_tags = Inr r \<and>
         length (hits r) \<le> length (ground_truth_tags r) \<and> recall r \<le> 1)"
proof
  show "evaluate_sbert exact_cosine [''kick'', ''snare''] [''drum'']
     [''kick'' \<mapsto> [1, 0], ''snare'' \<mapsto> [2, 0], ''drum'' \<mapsto> [1, 0]] (7/10) =
     Inr \<lparr>sbert_ground_truth_tags = [''drum''], sbert_predicted_tags = [''kick'', ''snare''],
          semantic_hits = [''kick'', ''snare''],
          semantic_matches =
            [\<lparr>predicted = ''kick'', matched_gt = Some ''drum'', similarity = 1\<rparr>,
             \<lparr>predicted = ''snare'', matched_gt = Some ''drum'', similarity = 1\<rparr>],
          exact_hits = [], num_semantic_hits = 2, num_exact_hits = 0,
          sbert_precision_at_10 = 1/5, sbert_recall = 2, sbert_f1_score = 4/11\<rparr>"
    by (simp add: evaluate_sbert_def compute_semantic_hits_def cosine_similarity_def exact_cosine_def
        shapes_agree_def first_def dot_def row_norm_def normalize_row_def clip_metrics_def
        py_div_def intersection_list_def lower_def lower_char_def Let_def)
next
  let ?gt = "map lower pair_ground_truth_tags"
  let ?hs = "intersection_list (map lower predicted_list) ?gt"
  let ?rec = "if ?gt \<noteq> [] then real (length ?hs) / real (length ?gt) else 0"
  obtain f where m: "clip_metrics ?hs ?gt = Inr (real (length ?hs) / 10, ?rec, f)"
    using clip_metrics_value[of ?hs ?gt] by blast
  let ?r = "\<lparr>ground_truth_tags = ?gt, predicted_tags = predicted_list, hits = ?hs,
             num_hits = length ?hs, precision_at_10 = real (length ?hs) / 10,
             recall = ?rec, f1_score = f\<rparr>"
  have "evaluate_exact predicted_list pair_ground_truth_tags = Inr ?r"
    by (simp add: evaluate_exact_def Let_def m)
  moreover have "length (hits ?r) \<le> length (ground_truth_tags ?r)"
    using length_intersection_list[of "map lower predicted_list" ?gt] by simp
  moreover have "recall ?r \<le> 1"
    using exact_recall_le_one[of ?gt "map lower predicted_list"] by simp
  ultimately show "\<exists>r. evaluate_exact predicted_list pair_ground_truth_tags = Inr r \<and>
         length (hits r) \<le> length (ground_truth_tags r) \<and> recall r \<le> 1" by blast
qed

end
